theory Spec2Isabelle
  imports Complex_Main "HOL-Library.Word" "HOL-Library.AList" "HOL-Library.Sublist"
begin

section \<open>Python values, errors and text rendering\<close>

text \<open>
  A Python \<open>bytes\<close> object is a sequence of integers in \<open>0..255\<close>: a list of 8-bit
  words, each read as an integer with \<open>uint\<close>. Python integers are unbounded: \<open>int\<close>.
  The scaled readings (\<open>raw / divisor\<close>) are kept as exact quotients in \<open>rat\<close>; the
  Python float is the double nearest to that quotient.
\<close>

type_synonym byte = "8 word"
type_synonym bytes = "byte list"

datatype py_datetime = DateTime bytes

datatype py_value =
    VInt int
  | VFloat rat
  | VBytes bytes
  | VDateTime py_datetime
  | VIntList "int list"
  | VFloatList "rat list"

datatype py_error =
    MalformedPacketException string
  | KeyError string
  | IndexError
  | TypeError
  | ValueError
  | AssertionError
  | Fault string

text \<open>Python's truth value of an object, as \<open>if time_stamp:\<close> tests it.\<close>

fun truthy :: "py_value \<Rightarrow> bool" where
  "truthy (VInt n) = (n \<noteq> 0)"
| "truthy (VFloat r) = (r \<noteq> 0)"
| "truthy (VBytes bs) = (bs \<noteq> [])"
| "truthy (VDateTime d) = True"
| "truthy (VIntList ns) = (ns \<noteq> [])"
| "truthy (VFloatList rs) = (rs \<noteq> [])"

definition hexdigit :: "nat \<Rightarrow> char" where
  "hexdigit n = ''0123456789abcdef'' ! (n mod 16)"

text \<open>\<open>str(n)\<close> of a non-negative integer.\<close>

fun str_nat :: "nat \<Rightarrow> string" where
  "str_nat n = (if n < 10 then [hexdigit n] else str_nat (n div 10) @ [hexdigit (n mod 10)])"

declare str_nat.simps [simp del]

fun hex_digits :: "nat \<Rightarrow> string" where
  "hex_digits n = (if n < 16 then [hexdigit n] else hex_digits (n div 16) @ [hexdigit (n mod 16)])"

declare hex_digits.simps [simp del]

text \<open>\<open>hex(n)\<close>: \<open>0x\<close> and the lower-case digits, with the sign in front.\<close>

definition py_hex :: "int \<Rightarrow> string" where
  "py_hex n = (if n < 0 then ''-0x'' @ hex_digits (nat (- n)) else ''0x'' @ hex_digits (nat n))"

text \<open>\<open>codecs.encode(b, "hex")\<close>: two lower-case digits for each byte.\<close>

definition hexlify :: "bytes \<Rightarrow> string" where
  "hexlify bs = concat (map (\<lambda>b. [hexdigit (unat b div 16), hexdigit (unat b mod 16)]) bs)"

text \<open>
  \<open>codecs.encode\<close> returns a \<open>bytes\<close> object, and \<open>str.format\<close> renders it with its
  \<open>repr\<close>: the hexadecimal text between \<open>b'\<close> and \<open>'\<close>.
\<close>

definition repr_bytes_hex :: "bytes \<Rightarrow> string" where
  "repr_bytes_hex bs = ''b'' @ [CHR 0x27] @ hexlify bs @ [CHR 0x27]"

text \<open>The slice \<open>buffer[offset : offset + n]\<close>; a Python slice never raises.\<close>

definition slice :: "bytes \<Rightarrow> nat \<Rightarrow> nat \<Rightarrow> bytes" where
  "slice buffer offset n = take n (drop offset buffer)"

section \<open>Field model\<close>

text \<open>
  Modelled from the spec: \<open>fields.py\<close> (the \<open>Field\<close> classes and the byte-order
  functions \<open>hi_to_lo\<close>, \<open>lo_to_hi\<close>, \<open>lo_to_hi_signed\<close>) is not among the sources.
  Spec 3 and 4.1: a byte-order function assembles an unsigned integer from
  most-significant-first or least-significant-first bytes; the signed variant reinterprets
  the assembled magnitude as two's complement.
\<close>

datatype byte_order = hi_to_lo | lo_to_hi | lo_to_hi_signed

definition assemble_hi_to_lo :: "bytes \<Rightarrow> int" where
  "assemble_hi_to_lo octets = foldl (\<lambda>result octet. result * 256 + uint octet) 0 octets"

definition assemble_lo_to_hi :: "bytes \<Rightarrow> int" where
  "assemble_lo_to_hi octets = assemble_hi_to_lo (rev octets)"

definition assemble_lo_to_hi_signed :: "bytes \<Rightarrow> int" where
  "assemble_lo_to_hi_signed octets =
     (let u = assemble_lo_to_hi octets; bits = 8 * length octets
      in if octets \<noteq> [] \<and> 2 ^ (bits - 1) \<le> u then u - 2 ^ bits else u)"

fun order :: "byte_order \<Rightarrow> bytes \<Rightarrow> int" where
  "order hi_to_lo octets = assemble_hi_to_lo octets"
| "order lo_to_hi octets = assemble_lo_to_hi octets"
| "order lo_to_hi_signed octets = assemble_lo_to_hi_signed octets"

text \<open>
  Modelled from the spec: the \<open>Field\<close> variants of spec 3, with the constructor
  arguments \<open>packets.py\<close> passes them (width, byte order, divisor; element count first
  for the arrays).
\<close>

datatype field =
    NumericField nat byte_order
  | FloatingPointField nat byte_order rat
  | ByteField
  | BytesField nat
  | DateTimeField
  | NumericArrayField nat nat byte_order
  | FloatingPointArrayField nat nat byte_order rat

text \<open>
  Modelled from the spec: \<open>size_in_bytes\<close> of a field. The width of \<open>DateTimeField\<close>
  is declared in \<open>fields.py\<close> and the spec says only that it is fixed: it is the
  parameter \<open>dtw\<close> of everything below.
\<close>

fun field_size :: "nat \<Rightarrow> field \<Rightarrow> nat" where
  "field_size dtw (NumericField w ord) = w"
| "field_size dtw (FloatingPointField w ord d) = w"
| "field_size dtw ByteField = 1"
| "field_size dtw (BytesField n) = n"
| "field_size dtw DateTimeField = dtw"
| "field_size dtw (NumericArrayField c w ord) = c * w"
| "field_size dtw (FloatingPointArrayField c w ord d) = c * w"

text \<open>
  Modelled from the spec: \<open>decode(buffer, offset)\<close>, with no bounds check (spec 4.1).
  An array is \<open>count\<close> consecutive elements; a raw field and a timestamp keep their
  bytes (the spec gives the timestamp no calendar decoding).
\<close>

fun read :: "nat \<Rightarrow> field \<Rightarrow> bytes \<Rightarrow> nat \<Rightarrow> py_value" where
  "read dtw (NumericField w ord) buffer offset = VInt (order ord (slice buffer offset w))"
| "read dtw (FloatingPointField w ord d) buffer offset =
     VFloat (of_int (order ord (slice buffer offset w)) / d)"
| "read dtw ByteField buffer offset = VBytes (slice buffer offset 1)"
| "read dtw (BytesField n) buffer offset = VBytes (slice buffer offset n)"
| "read dtw DateTimeField buffer offset = VDateTime (DateTime (slice buffer offset dtw))"
| "read dtw (NumericArrayField c w ord) buffer offset =
     VIntList (map (\<lambda>i. order ord (slice buffer (offset + i * w) w)) [0..<c])"
| "read dtw (FloatingPointArrayField c w ord d) buffer offset =
     VFloatList (map (\<lambda>i. of_int (order ord (slice buffer (offset + i * w) w)) / d) [0..<c])"

text \<open>
  Modelled from the spec: \<open>NumericField.max\<close>, the largest value of the field's byte
  width (spec 4.3: a 3-byte counter's max is \<open>2^24 - 1\<close>).
\<close>

definition field_max :: "nat \<Rightarrow> int" where
  "field_max w = 2 ^ (8 * w) - 1"

section \<open>Packet formats and packets (\<open>packets.py\<close>)\<close>

record packet_format =
  name :: string
  num_channels :: nat
  pf_fields :: "(string \<times> field) list"

definition NUM_PULSE_COUNTERS :: nat where
  "NUM_PULSE_COUNTERS = 4"

definition NUM_TEMPERATURE_SENSORS :: nat where
  "NUM_TEMPERATURE_SENSORS = 8"

text \<open>
  \<open>PacketFormat.__init__\<close>. \<open>self.fields\<close> is an \<open>OrderedDict\<close>: an association list
  in insertion order, each assignment \<open>self.fields[k] = f\<close> an \<open>AList.update\<close>
  (replace in place, or append).
\<close>

definition PacketFormat :: "string \<Rightarrow> nat \<Rightarrow> bool \<Rightarrow> bool \<Rightarrow> packet_format" where
  "PacketFormat nm n has_net_metering has_time_stamp =
     (let fs = [];
          fs = AList.update ''header'' (NumericField 3 hi_to_lo) fs;
          fs = AList.update ''voltage'' (FloatingPointField 2 hi_to_lo 10) fs;
          fs = AList.update ''absolute_watt_seconds'' (NumericArrayField n 5 lo_to_hi) fs;
          fs = (if has_net_metering
                then AList.update ''polarized_watt_seconds'' (NumericArrayField n 5 lo_to_hi) fs
                else fs);
          fs = AList.update ''serial_number'' (NumericField 2 hi_to_lo) fs;
          fs = AList.update ''reserved'' ByteField fs;
          fs = AList.update ''device_id'' (NumericField 1 hi_to_lo) fs;
          fs = AList.update ''currents'' (FloatingPointArrayField n 2 lo_to_hi 50) fs;
          fs = AList.update ''seconds'' (NumericField 3 lo_to_hi) fs;
          fs = AList.update ''pulse_counts'' (NumericArrayField NUM_PULSE_COUNTERS 3 lo_to_hi) fs;
          fs = AList.update ''temperatures''
                 (FloatingPointArrayField NUM_TEMPERATURE_SENSORS 2 lo_to_hi_signed 2) fs;
          fs = (if n = 32 then AList.update ''spare_bytes'' (BytesField 2) fs else fs);
          fs = (if has_time_stamp then AList.update ''time_stamp'' DateTimeField fs else fs);
          fs = AList.update ''footer'' (NumericField 2 hi_to_lo) fs;
          fs = AList.update ''checksum'' ByteField fs
      in \<lparr>name = nm, num_channels = n, pf_fields = fs\<rparr>)"

definition BIN48_NET_TIME :: packet_format where
  "BIN48_NET_TIME = PacketFormat ''BIN48-NET-TIME'' 48 True True"

definition BIN48_NET :: packet_format where
  "BIN48_NET = PacketFormat ''BIN48-NET'' 48 True False"

definition BIN48_ABS :: packet_format where
  "BIN48_ABS = PacketFormat ''BIN48-ABS'' 48 False False"

definition BIN32_NET :: packet_format where
  "BIN32_NET = PacketFormat ''BIN32-NET'' 32 True False"

definition BIN32_ABS :: packet_format where
  "BIN32_ABS = PacketFormat ''BIN32-ABS'' 32 False False"

text \<open>\<open>PacketFormat.size\<close>: the loop \<open>result += value.size\<close> over the fields.\<close>

definition pf_size :: "nat \<Rightarrow> packet_format \<Rightarrow> nat" where
  "pf_size dtw self = foldl (\<lambda>result value. result + field_size dtw value) 0 (map snd (pf_fields self))"

text \<open>
  \<open>_checksum(packet, size)\<close>. \<open>packet[: size - 1]\<close> is a prefix for \<open>size \<ge> 1\<close> and
  drops \<open>1 - size\<close> trailing bytes otherwise; \<open>packet[size - 1]\<close> raises \<open>IndexError\<close>
  out of range and counts from the end when the index is negative.
\<close>

definition py_prefix :: "bytes \<Rightarrow> int \<Rightarrow> bytes" where
  "py_prefix packet k =
     (if 0 \<le> k then take (nat k) packet else take (length packet - nat (- k)) packet)"

definition py_index :: "bytes \<Rightarrow> int \<Rightarrow> py_error + int" where
  "py_index packet i =
     (let n = int (length packet); j = (if i < 0 then n + i else i)
      in if 0 \<le> j \<and> j < n then Inr (uint (packet ! nat j)) else Inl IndexError)"

definition checksum :: "bytes \<Rightarrow> int \<Rightarrow> py_error + unit" where
  "checksum packet sz =
     (let c = foldl (\<lambda>c i. c + uint i) 0 (py_prefix packet (sz - 1));
          c = c mod 256
      in case py_index packet (sz - 1) of
           Inl e \<Rightarrow> Inl e
         | Inr b \<Rightarrow>
             if c \<noteq> b
             then Inl (MalformedPacketException
                        (''bad checksum for packet: '' @ repr_bytes_hex (py_prefix packet sz)))
             else Inr ())"

record packet =
  packet_format :: packet_format
  voltage :: py_value
  absolute_watt_seconds :: py_value
  polarized_watt_seconds :: "py_value option"
  currents :: "py_value option"
  device_id :: py_value
  serial_number :: py_value
  seconds :: py_value
  pulse_counts :: py_value
  temperatures :: py_value
  time_stamp :: py_value

text \<open>
  \<open>Packet(**args)\<close>: the required keywords must be present (\<open>TypeError\<close> otherwise),
  the optional ones default to \<open>None\<close>, every other keyword goes to \<open>**kwargs\<close> and is
  dropped. \<open>datetime.now()\<close> reads the clock: the reading is the argument \<open>now\<close>.
\<close>

definition Packet_init ::
  "py_datetime \<Rightarrow> packet_format \<Rightarrow> (string \<times> py_value) list \<Rightarrow> py_error + packet" where
  "Packet_init now fmt args =
     (case (map_of args ''voltage'', map_of args ''absolute_watt_seconds'',
            map_of args ''device_id'', map_of args ''serial_number'',
            map_of args ''seconds'', map_of args ''pulse_counts'',
            map_of args ''temperatures'') of
        (Some v, Some a, Some d, Some sn, Some s, Some pc, Some t) \<Rightarrow>
          Inr \<lparr>packet_format = fmt, voltage = v, absolute_watt_seconds = a,
               polarized_watt_seconds = map_of args ''polarized_watt_seconds'',
               currents = map_of args ''currents'',
               device_id = d, serial_number = sn, seconds = s, pulse_counts = pc,
               temperatures = t,
               time_stamp = (case map_of args ''time_stamp'' of
                               Some ts \<Rightarrow> if truthy ts then ts else VDateTime now
                             | None \<Rightarrow> VDateTime now)\<rparr>
      | _ \<Rightarrow> Inl TypeError)"

text \<open>
  The decoding loop of \<open>parse\<close>: \<open>args[key] = value.read(packet, offset)\<close>, then
  \<open>offset += value.size\<close>. The entry \<open>"packet_format": self\<close> of \<open>args\<close> is passed
  to \<open>Packet_init\<close> as its own argument.
\<close>

fun read_fields ::
  "nat \<Rightarrow> (string \<times> field) list \<Rightarrow> bytes \<Rightarrow> nat \<Rightarrow> (string \<times> py_value) list
     \<Rightarrow> (string \<times> py_value) list" where
  "read_fields dtw [] packet offset args = args"
| "read_fields dtw ((key, value) # rest) packet offset args =
     read_fields dtw rest packet (offset + field_size dtw value)
       (AList.update key (read dtw value packet offset) args)"

definition too_short_message :: "nat \<Rightarrow> nat \<Rightarrow> string" where
  "too_short_message expected found =
     ''Packet too short. Expected '' @ str_nat expected @ '' bytes, found '' @ str_nat found
       @ '' bytes.''"

definition bad_footer_message :: "int \<Rightarrow> bytes \<Rightarrow> string" where
  "bad_footer_message footer packet =
     ''bad footer '' @ py_hex footer @ '' in packet: '' @ repr_bytes_hex packet"

text \<open>\<open>PacketFormat.parse\<close>. \<open>hex\<close> of a value that is not an integer raises \<open>TypeError\<close>.\<close>

definition parse :: "nat \<Rightarrow> py_datetime \<Rightarrow> packet_format \<Rightarrow> bytes \<Rightarrow> py_error + packet" where
  "parse dtw now self packet =
     (if length packet < pf_size dtw self
      then Inl (MalformedPacketException (too_short_message (pf_size dtw self) (length packet)))
      else case checksum packet (int (pf_size dtw self)) of
             Inl e \<Rightarrow> Inl e
           | Inr u \<Rightarrow>
               let args = read_fields dtw (pf_fields self) packet 0 []
               in case map_of args ''footer'' of
                    None \<Rightarrow> Inl (KeyError ''footer'')
                  | Some footer \<Rightarrow>
                      if footer \<noteq> VInt 0xFFFE
                      then (case footer of
                              VInt n \<Rightarrow> Inl (MalformedPacketException (bad_footer_message n packet))
                            | _ \<Rightarrow> Inl TypeError)
                      else Packet_init now self args)"

text \<open>
  The derived properties of \<open>Packet\<close>: a dictionary lookup (\<open>KeyError\<close> when the field
  is absent), the \<open>isinstance\<close> assertion, then the \<open>max\<close> of the field or of the
  array's element field.
\<close>

definition max_seconds :: "packet \<Rightarrow> py_error + int" where
  "max_seconds self =
     (case map_of (pf_fields (packet_format self)) ''seconds'' of
        None \<Rightarrow> Inl (KeyError ''seconds'')
      | Some (NumericField w ord) \<Rightarrow> Inr (field_max w)
      | Some _ \<Rightarrow> Inl AssertionError)"

definition max_pulse_count :: "packet \<Rightarrow> py_error + int" where
  "max_pulse_count self =
     (case map_of (pf_fields (packet_format self)) ''pulse_counts'' of
        None \<Rightarrow> Inl (KeyError ''pulse_counts'')
      | Some (NumericArrayField c w ord) \<Rightarrow> Inr (field_max w)
      | Some _ \<Rightarrow> Inl AssertionError)"

definition max_absolute_watt_seconds :: "packet \<Rightarrow> py_error + int" where
  "max_absolute_watt_seconds self =
     (case map_of (pf_fields (packet_format self)) ''absolute_watt_seconds'' of
        None \<Rightarrow> Inl (KeyError ''absolute_watt_seconds'')
      | Some (NumericArrayField c w ord) \<Rightarrow> Inr (field_max w)
      | Some _ \<Rightarrow> Inl AssertionError)"

definition max_polarized_watt_seconds :: "packet \<Rightarrow> py_error + int" where
  "max_polarized_watt_seconds self =
     (case map_of (pf_fields (packet_format self)) ''polarized_watt_seconds'' of
        None \<Rightarrow> Inl (KeyError ''polarized_watt_seconds'')
      | Some (NumericArrayField c w ord) \<Rightarrow> Inr (field_max w)
      | Some _ \<Rightarrow> Inl AssertionError)"

section \<open>Encoding field values (the construction of the round-trip property)\<close>

text \<open>
  The sources hold no encoder. The one below follows the spec's words (spec 6 and 8): the
  field values are written in declared field order, each with its width, byte order and
  scale, and the last byte is the sum of all preceding bytes mod 256.
\<close>

fun encode_lo_to_hi :: "nat \<Rightarrow> int \<Rightarrow> bytes" where
  "encode_lo_to_hi 0 n = []"
| "encode_lo_to_hi (Suc w) n = word_of_int (n mod 256) # encode_lo_to_hi w (n div 256)"

fun encode_order :: "byte_order \<Rightarrow> nat \<Rightarrow> int \<Rightarrow> bytes" where
  "encode_order hi_to_lo w n = rev (encode_lo_to_hi w n)"
| "encode_order lo_to_hi w n = encode_lo_to_hi w n"
| "encode_order lo_to_hi_signed w n = encode_lo_to_hi w (n mod 2 ^ (8 * w))"

text \<open>The integers a field of width \<open>w\<close> and a given byte order can hold.\<close>

fun in_range :: "byte_order \<Rightarrow> nat \<Rightarrow> int \<Rightarrow> bool" where
  "in_range lo_to_hi_signed w n = (0 < w \<and> - (2 ^ (8 * w - 1)) \<le> n \<and> n < 2 ^ (8 * w - 1))"
| "in_range ord w n = (0 \<le> n \<and> n < 2 ^ (8 * w))"

text \<open>The raw integer of a scaled reading \<open>r = raw / d\<close>.\<close>

definition raw_of :: "rat \<Rightarrow> rat \<Rightarrow> int" where
  "raw_of d r = \<lfloor>r * d\<rfloor>"

definition scaled_ok :: "byte_order \<Rightarrow> nat \<Rightarrow> rat \<Rightarrow> rat \<Rightarrow> bool" where
  "scaled_ok ord w d r = (d \<noteq> 0 \<and> of_int (raw_of d r) = r * d \<and> in_range ord w (raw_of d r))"

fun valid_value :: "nat \<Rightarrow> field \<Rightarrow> py_value \<Rightarrow> bool" where
  "valid_value dtw (NumericField w ord) (VInt n) = in_range ord w n"
| "valid_value dtw (FloatingPointField w ord d) (VFloat r) = scaled_ok ord w d r"
| "valid_value dtw ByteField (VBytes bs) = (length bs = 1)"
| "valid_value dtw (BytesField n) (VBytes bs) = (length bs = n)"
| "valid_value dtw DateTimeField (VDateTime (DateTime bs)) = (length bs = dtw)"
| "valid_value dtw (NumericArrayField c w ord) (VIntList ns) =
     (length ns = c \<and> list_all (in_range ord w) ns)"
| "valid_value dtw (FloatingPointArrayField c w ord d) (VFloatList rs) =
     (length rs = c \<and> list_all (scaled_ok ord w d) rs)"
| "valid_value dtw f v = False"

fun encode_field :: "field \<Rightarrow> py_value \<Rightarrow> bytes" where
  "encode_field (NumericField w ord) (VInt n) = encode_order ord w n"
| "encode_field (FloatingPointField w ord d) (VFloat r) = encode_order ord w (raw_of d r)"
| "encode_field ByteField (VBytes bs) = bs"
| "encode_field (BytesField n) (VBytes bs) = bs"
| "encode_field DateTimeField (VDateTime (DateTime bs)) = bs"
| "encode_field (NumericArrayField c w ord) (VIntList ns) = concat (map (encode_order ord w) ns)"
| "encode_field (FloatingPointArrayField c w ord d) (VFloatList rs) =
     concat (map (\<lambda>r. encode_order ord w (raw_of d r)) rs)"
| "encode_field f v = []"

fun encode_fields :: "(string \<times> field) list \<Rightarrow> (string \<times> py_value) list \<Rightarrow> bytes" where
  "encode_fields ((key, value) # rest) ((k, v) # vals) = encode_field value v @ encode_fields rest vals"
| "encode_fields fs vals = []"

fun valid_values :: "nat \<Rightarrow> (string \<times> field) list \<Rightarrow> (string \<times> py_value) list \<Rightarrow> bool" where
  "valid_values dtw [] [] = True"
| "valid_values dtw ((key, value) # rest) ((k, v) # vals) =
     (k = key \<and> valid_value dtw value v \<and> valid_values dtw rest vals)"
| "valid_values dtw fs vals = False"

definition checksum_byte :: "bytes \<Rightarrow> byte" where
  "checksum_byte body = word_of_int (sum_list (map uint body) mod 256)"

text \<open>
  \<open>vals\<close> gives a value to every field but the checksum, in declared order; the packet is
  their encoding followed by the checksum byte.
\<close>

definition encode_packet :: "packet_format \<Rightarrow> (string \<times> py_value) list \<Rightarrow> bytes" where
  "encode_packet fmt vals =
     (let body = encode_fields (butlast (pf_fields fmt)) vals in body @ [checksum_byte body])"

definition valid_packet_values ::
  "nat \<Rightarrow> packet_format \<Rightarrow> (string \<times> py_value) list \<Rightarrow> bool" where
  "valid_packet_values dtw fmt vals =
     (valid_values dtw (butlast (pf_fields fmt)) vals \<and> map_of vals ''footer'' = Some (VInt 0xFFFE))"

text \<open>Field values for a BIN32-ABS packet, with the extremes of several fields.\<close>

definition example_values :: "(string \<times> py_value) list" where
  "example_values =
     [(''header'', VInt 0xFEFF05),
      (''voltage'', VFloat 120),
      (''absolute_watt_seconds'', VIntList (replicate 32 1099511627775)),
      (''serial_number'', VInt 12345),
      (''reserved'', VBytes [0]),
      (''device_id'', VInt 7),
      (''currents'', VFloatList (replicate 32 5)),
      (''seconds'', VInt 16777215),
      (''pulse_counts'', VIntList [0, 1, 2, 16777215]),
      (''temperatures'', VFloatList [-10, 0, 1 / 2, 21, - 1 / 2, 100, -16384, 32767 / 2]),
      (''spare_bytes'', VBytes [0, 0]),
      (''footer'', VInt 0xFFFE)]"

section \<open>The API call protocol (\<open>api.py\<close>)\<close>

text \<open>
  \<open>datetime.timedelta\<close>: days, seconds and microseconds, normalised so that
  \<open>0 \<le> seconds < 86400\<close> and \<open>0 \<le> microseconds < 1000000\<close>; the attribute \<open>seconds\<close>
  is the middle component alone.
\<close>

record timedelta =
  td_days :: int
  td_seconds :: int
  td_microseconds :: int

definition total_microseconds :: "timedelta \<Rightarrow> int" where
  "total_microseconds d = (td_days d * 86400 + td_seconds d) * 1000000 + td_microseconds d"

text \<open>
  Modelled from the spec: \<open>protocol.py\<close> (\<open>BidirectionalProtocol\<close>) is not among the
  sources. Spec 1 and 6 give the collaborator's interface: \<open>begin_api_request() -> delay\<close>,
  \<open>send_api_request(text) -> delay\<close>, \<open>receive_api_response() -> text\<close>,
  \<open>end_api_request()\<close>. Each is a function of the transport's state \<open>'p\<close> that returns
  a result or raises.
\<close>

record 'p protocol =
  begin_api_request :: "'p \<Rightarrow> (py_error + timedelta) \<times> 'p"
  send_api_request :: "string \<Rightarrow> 'p \<Rightarrow> (py_error + timedelta) \<times> 'p"
  receive_api_response :: "'p \<Rightarrow> (py_error + string) \<times> 'p"
  end_api_request :: "'p \<Rightarrow> (py_error + unit) \<times> 'p"

text \<open>
  What \<open>call_api\<close> and its sender do to the outside, in order: each call of a protocol
  method and each \<open>asyncio.sleep\<close>, with the number of seconds it was given.
\<close>

datatype event =
    BeginApiRequest
  | Sleep int
  | SendApiRequest string
  | ReceiveApiResponse
  | EndApiRequest

type_synonym 'p world = "event list \<times> 'p"

definition sleep :: "int \<Rightarrow> 'p world \<Rightarrow> 'p world" where
  "sleep secs w = (fst w @ [Sleep secs], snd w)"

record ('a, 'r) ApiCall =
  format_request :: "'a \<Rightarrow> py_error + string"
  parse_response :: "string \<Rightarrow> py_error + 'r"

definition send_request ::
  "('a, 'r) ApiCall \<Rightarrow> 'p protocol \<Rightarrow> 'a \<Rightarrow> 'p world \<Rightarrow> (py_error + timedelta) \<times> 'p world" where
  "send_request api protocol arg w =
     (case format_request api arg of
        Inl e \<Rightarrow> (Inl e, w)
      | Inr text \<Rightarrow>
          (case send_api_request protocol text (snd w) of
             (r, p) \<Rightarrow> (r, (fst w @ [SendApiRequest text], p))))"

definition receive_response ::
  "('a, 'r) ApiCall \<Rightarrow> 'p protocol \<Rightarrow> 'p world \<Rightarrow> (py_error + 'r) \<times> 'p world" where
  "receive_response api protocol w =
     (case receive_api_response protocol (snd w) of
        (Inl e, p) \<Rightarrow> (Inl e, (fst w @ [ReceiveApiResponse], p))
      | (Inr text, p) \<Rightarrow> (parse_response api text, (fst w @ [ReceiveApiResponse], p)))"

text \<open>The sender \<open>send\<close> that \<open>call_api\<close> yields.\<close>

definition send ::
  "('a, 'r) ApiCall \<Rightarrow> 'p protocol \<Rightarrow> 'a \<Rightarrow> 'p world \<Rightarrow> (py_error + 'r) \<times> 'p world" where
  "send api protocol arg w =
     (case send_request api protocol arg w of
        (Inl e, w1) \<Rightarrow> (Inl e, w1)
      | (Inr delay, w1) \<Rightarrow> receive_response api protocol (sleep (td_seconds delay) w1))"

text \<open>
  The block under \<open>async with call_api(...) as f\<close>: it returns, raises, or calls the
  sender and goes on with what the call returned or raised.
\<close>

datatype ('a, 'r, 'b) block =
    Return 'b
  | Raise py_error
  | Call 'a "py_error + 'r \<Rightarrow> ('a, 'r, 'b) block"

primrec run_block ::
  "('a \<Rightarrow> 'p world \<Rightarrow> (py_error + 'r) \<times> 'p world) \<Rightarrow> ('a, 'r, 'b) block \<Rightarrow> 'p world
     \<Rightarrow> (py_error + 'b) \<times> 'p world" where
  "run_block f (Return b) = (\<lambda>w. (Inr b, w))"
| "run_block f (Raise e) = (\<lambda>w. (Inl e, w))"
| "run_block f (Call arg k) = (\<lambda>w. case f arg w of (r, w1) \<Rightarrow> run_block f (k r) w1)"

text \<open>
  \<open>call_api\<close>: \<open>begin_api_request\<close> outside the \<open>try\<close>, the sleep and the block inside it,
  \<open>end_api_request\<close> in the \<open>finally\<close>; an exception of the \<open>finally\<close> replaces the
  block's outcome.
\<close>

definition call_api ::
  "('a, 'r) ApiCall \<Rightarrow> 'p protocol \<Rightarrow> ('a, 'r, 'b) block \<Rightarrow> 'p world
     \<Rightarrow> (py_error + 'b) \<times> 'p world" where
  "call_api api protocol body w =
     (case begin_api_request protocol (snd w) of
        (Inl e, p) \<Rightarrow> (Inl e, (fst w @ [BeginApiRequest], p))
      | (Inr delay, p) \<Rightarrow>
          (case run_block (send api protocol) body
                  (sleep (td_seconds delay) (fst w @ [BeginApiRequest], p)) of
             (res, w2) \<Rightarrow>
               (case end_api_request protocol (snd w2) of
                  (Inl e, p3) \<Rightarrow> (Inl e, (fst w2 @ [EndApiRequest], p3))
                | (Inr u, p3) \<Rightarrow> (res, (fst w2 @ [EndApiRequest], p3)))))"

text \<open>
  Python's \<open>int(text)\<close> on ASCII text: surrounding whitespace (tab, line feed, vertical
  tab, form feed, carriage return, space) is stripped, one sign is allowed, then decimal
  digits, with single underscores between digits; anything else raises \<open>ValueError\<close>.
\<close>

definition is_space :: "char \<Rightarrow> bool" where
  "is_space c = (let n = (of_char c :: nat) in (9 \<le> n \<and> n \<le> 13) \<or> n = 32)"

definition is_digit :: "char \<Rightarrow> bool" where
  "is_digit c = (let n = (of_char c :: nat) in 48 \<le> n \<and> n \<le> 57)"

definition digit_value :: "char \<Rightarrow> int" where
  "digit_value c = int (of_char c) - 48"

definition strip :: "string \<Rightarrow> string" where
  "strip s = rev (dropWhile is_space (rev (dropWhile is_space s)))"

fun parse_digits :: "int \<Rightarrow> bool \<Rightarrow> string \<Rightarrow> py_error + int" where
  "parse_digits acc after_digit [] = (if after_digit then Inr acc else Inl ValueError)"
| "parse_digits acc after_digit (c # cs) =
     (if c = CHR ''_'' then (if after_digit then parse_digits acc False cs else Inl ValueError)
      else if is_digit c then parse_digits (acc * 10 + digit_value c) True cs
      else Inl ValueError)"

definition py_int :: "string \<Rightarrow> py_error + int" where
  "py_int s =
     (case strip s of
        [] \<Rightarrow> Inl ValueError
      | c # cs \<Rightarrow>
          if c = CHR ''-'' then (case parse_digits 0 False cs of Inl e \<Rightarrow> Inl e | Inr n \<Rightarrow> Inr (- n))
          else if c = CHR ''+'' then parse_digits 0 False cs
          else parse_digits 0 False (c # cs))"

text \<open>
  \<open>GET_SERIAL_NUMBER\<close>. The literal \<open>CMD_GET_SERIAL_NUMBER\<close> is declared in
  \<open>const.py\<close>, which is not among the sources: it is the parameter \<open>cmd\<close>. The
  argument type of the call is \<open>None\<close>: \<open>unit\<close>.
\<close>

definition GET_SERIAL_NUMBER :: "string \<Rightarrow> (unit, int) ApiCall" where
  "GET_SERIAL_NUMBER cmd = \<lparr>format_request = (\<lambda>_. Inr cmd), parse_response = (\<lambda>response. py_int response)\<rparr>"

text \<open>\<open>get_serial_number\<close>: the block is \<open>return await f(None)\<close>.\<close>

definition get_serial_number :: "string \<Rightarrow> 'p protocol \<Rightarrow> 'p world \<Rightarrow> (py_error + int) \<times> 'p world" where
  "get_serial_number cmd protocol w =
     call_api (GET_SERIAL_NUMBER cmd) protocol
       (Call () (\<lambda>r. case r of Inl e \<Rightarrow> Raise e | Inr n \<Rightarrow> Return n)) w"

text \<open>The integer that a string of decimal digits denotes.\<close>

definition decimal :: "string \<Rightarrow> int" where
  "decimal ds = foldl (\<lambda>acc c. acc * 10 + digit_value c) 0 ds"

text \<open>
  A transport for examples: every call succeeds, both delays are \<open>d\<close> and the response
  is \<open>text\<close>.
\<close>

definition fixed_transport :: "timedelta \<Rightarrow> string \<Rightarrow> unit protocol" where
  "fixed_transport d text =
     \<lparr>begin_api_request = (\<lambda>p. (Inr d, p)),
      send_api_request = (\<lambda>request p. (Inr d, p)),
      receive_api_response = (\<lambda>p. (Inr text, p)),
      end_api_request = (\<lambda>p. (Inr (), p))\<rparr>"

text \<open>
  A transport that counts the calls of its \<open>end_api_request\<close>, as a test double does:
  the transport \<open>protocol\<close> with a counter beside its state, which only the wrapped
  \<open>end_api_request\<close> increments.
\<close>

definition counting :: "'p protocol \<Rightarrow> (nat \<times> 'p) protocol" where
  "counting protocol =
     \<lparr>begin_api_request =
        (\<lambda>(n, p). case begin_api_request protocol p of (r, p') \<Rightarrow> (r, (n, p'))),
      send_api_request =
        (\<lambda>request (n, p). case send_api_request protocol request p of (r, p') \<Rightarrow> (r, (n, p'))),
      receive_api_response =
        (\<lambda>(n, p). case receive_api_response protocol p of (r, p') \<Rightarrow> (r, (n, p'))),
      end_api_request =
        (\<lambda>(n, p). case end_api_request protocol p of (r, p') \<Rightarrow> (r, (Suc n, p')))\<rparr>"

definition end_calls :: "(nat \<times> 'p) world \<Rightarrow> nat" where
  "end_calls w = fst (snd w)"

text \<open>A transport for examples whose \<open>begin_api_request\<close> raises.\<close>

definition refusing_transport :: "unit protocol" where
  "refusing_transport =
     \<lparr>begin_api_request = (\<lambda>p. (Inl (Fault ''not ready''), p)),
      send_api_request = (\<lambda>request p. (Inr \<lparr>td_days = 0, td_seconds = 3, td_microseconds = 0\<rparr>, p)),
      receive_api_response = (\<lambda>p. (Inr ''123456'', p)),
      end_api_request = (\<lambda>p. (Inr (), p))\<rparr>"

text \<open>
  The value of a lower-case hexadecimal digit, read from the character code alone: what
  a reader of the hexadecimal text takes each character to mean.
\<close>

definition hex_value :: "char \<Rightarrow> nat option" where
  "hex_value c =
     (let n = (of_char c :: nat)
      in if 48 \<le> n \<and> n \<le> 57 then Some (n - 48)
         else if 97 \<le> n \<and> n \<le> 102 then Some (n - 87)
         else None)"

section \<open>Properties of the packet formats\<close>

lemma fields_PacketFormat:
  "pf_fields (PacketFormat nm n net ts) =
     [(''header'', NumericField 3 hi_to_lo),
      (''voltage'', FloatingPointField 2 hi_to_lo 10),
      (''absolute_watt_seconds'', NumericArrayField n 5 lo_to_hi)]
     @ (if net then [(''polarized_watt_seconds'', NumericArrayField n 5 lo_to_hi)] else [])
     @ [(''serial_number'', NumericField 2 hi_to_lo),
        (''reserved'', ByteField),
        (''device_id'', NumericField 1 hi_to_lo),
        (''currents'', FloatingPointArrayField n 2 lo_to_hi 50),
        (''seconds'', NumericField 3 lo_to_hi),
        (''pulse_counts'', NumericArrayField 4 3 lo_to_hi),
        (''temperatures'', FloatingPointArrayField 8 2 lo_to_hi_signed 2)]
     @ (if n = 32 then [(''spare_bytes'', BytesField 2)] else [])
     @ (if ts then [(''time_stamp'', DateTimeField)] else [])
     @ [(''footer'', NumericField 2 hi_to_lo), (''checksum'', ByteField)]"
  by (simp add: PacketFormat_def NUM_PULSE_COUNTERS_def NUM_TEMPERATURE_SENSORS_def Let_def)

lemma foldl_size_acc:
  "foldl (\<lambda>result value. result + field_size dtw value) a fs = a + sum_list (map (field_size dtw) fs)"
  by (induction fs arbitrary: a) simp_all

lemma pf_size_sum_list:
  "pf_size dtw self = sum_list (map (\<lambda>(key, value). field_size dtw value) (pf_fields self))"
  by (simp add: pf_size_def foldl_size_acc case_prod_unfold comp_def)

lemma pf_size_PacketFormat:
  "pf_size dtw (PacketFormat nm n net ts) =
     43 + n * 7 + (if net then n * 5 else 0) + (if n = 32 then 2 else 0) + (if ts then dtw else 0)"
  by (simp add: pf_size_sum_list fields_PacketFormat)

lemma pf_size_five:
  "pf_size dtw BIN48_NET_TIME = 619 + dtw" "pf_size dtw BIN48_NET = 619"
  "pf_size dtw BIN48_ABS = 379" "pf_size dtw BIN32_NET = 429" "pf_size dtw BIN32_ABS = 269"
  by (simp_all add: pf_size_PacketFormat BIN48_NET_TIME_def BIN48_NET_def BIN48_ABS_def
      BIN32_NET_def BIN32_ABS_def)

section \<open>Decoding an encoded field\<close>

lemma length_encode_lo_to_hi [simp]: "length (encode_lo_to_hi w n) = w"
  by (induction w arbitrary: n) simp_all

lemma length_encode_order [simp]: "length (encode_order ord w n) = w"
  by (cases ord) simp_all

lemma assemble_lo_to_hi_Nil [simp]: "assemble_lo_to_hi [] = 0"
  by (simp add: assemble_lo_to_hi_def assemble_hi_to_lo_def)

lemma assemble_lo_to_hi_Cons [simp]:
  "assemble_lo_to_hi (b # bs) = uint b + 256 * assemble_lo_to_hi bs"
  by (simp add: assemble_lo_to_hi_def assemble_hi_to_lo_def)

lemma assemble_hi_to_lo_rev: "assemble_hi_to_lo (rev bs) = assemble_lo_to_hi bs"
  by (simp add: assemble_lo_to_hi_def)

lemma uint_byte_of_mod: "uint (word_of_int (n mod 256) :: byte) = n mod 256"
  by (simp add: uint_word_of_int)

lemma assemble_encode_lo_to_hi:
  "assemble_lo_to_hi (encode_lo_to_hi w n) = n mod 2 ^ (8 * w)"
proof (induction w arbitrary: n)
  case 0
  show ?case by simp
next
  case (Suc w)
  have "n mod (256 * 2 ^ (8 * w)) = 256 * (n div 256 mod 2 ^ (8 * w)) + n mod 256"
    by (rule zmod_zmult2_eq) simp
  moreover have "(2::int) ^ (8 * Suc w) = 256 * 2 ^ (8 * w)"
    by (simp add: power_add)
  ultimately show ?case
    by (simp add: Suc.IH uint_byte_of_mod)
qed

lemma order_encode_order:
  assumes "in_range ord w n"
  shows "order ord (encode_order ord w n) = n"
proof (cases ord)
  case hi_to_lo
  with assms show ?thesis
    by (simp add: assemble_hi_to_lo_rev assemble_encode_lo_to_hi)
next
  case lo_to_hi
  with assms show ?thesis
    by (simp add: assemble_encode_lo_to_hi)
next
  case lo_to_hi_signed
  with assms have w: "0 < w" and lo: "- (2 ^ (8 * w - 1)) \<le> n" and hi: "n < 2 ^ (8 * w - 1)"
    by simp_all
  have p: "(2::int) ^ (8 * w) = 2 * 2 ^ (8 * w - 1)"
    using w by (cases w) (simp_all add: power_add)
  have ne: "encode_lo_to_hi w (n mod 2 ^ (8 * w)) \<noteq> []"
    using w by (cases w) simp_all
  have u: "assemble_lo_to_hi (encode_lo_to_hi w (n mod 2 ^ (8 * w))) = n mod 2 ^ (8 * w)"
    by (simp add: assemble_encode_lo_to_hi)
  show ?thesis
  proof (cases "0 \<le> n")
    case True
    then have "n mod 2 ^ (8 * w) = n"
      using hi p by (simp add: mod_pos_pos_trivial)
    then show ?thesis
      using lo_to_hi_signed hi ne u by (simp add: assemble_lo_to_hi_signed_def Let_def)
  next
    case False
    have "(n + 2 ^ (8 * w)) mod 2 ^ (8 * w) = n + 2 ^ (8 * w)"
      using False lo p by (intro mod_pos_pos_trivial) simp_all
    then have "n mod 2 ^ (8 * w) = n + 2 ^ (8 * w)"
      by simp
    then show ?thesis
      using lo_to_hi_signed lo ne u p False by (simp add: assemble_lo_to_hi_signed_def Let_def)
  qed
qed

lemma slice_middle [simp]: "slice (pre @ xs @ post) (length pre) (length xs) = xs"
  by (simp add: slice_def)

lemma slice_middle': "length xs = n \<Longrightarrow> slice (pre @ xs @ post) (length pre) n = xs"
  by (simp add: slice_def)

lemma array_roundtrip:
  assumes "\<forall>x \<in> set xs. length (enc x) = w \<and> dec (enc x) = x"
  shows "map (\<lambda>i. dec (slice (pre @ concat (map enc xs) @ post) (length pre + i * w) w))
           [0..<length xs] = xs"
  using assms
proof (induction xs arbitrary: pre)
  case Nil
  show ?case by simp
next
  case (Cons x xs)
  have hd: "slice (pre @ enc x @ concat (map enc xs) @ post) (length pre) w = enc x"
    using Cons.prems by (simp add: slice_middle')
  have "map (\<lambda>i. dec (slice ((pre @ enc x) @ concat (map enc xs) @ post)
               (length (pre @ enc x) + i * w) w)) [0..<length xs] = xs"
    using Cons.prems by (intro Cons.IH) simp
  then have tl: "map (\<lambda>i. dec (slice (pre @ enc x @ concat (map enc xs) @ post)
               (length pre + Suc i * w) w)) [0..<length xs] = xs"
    using Cons.prems by (simp add: add.assoc)
  show ?case
    using hd tl Cons.prems
    by (simp add: upt_conv_Cons map_Suc_upt [symmetric] comp_def del: upt_Suc)
qed

lemma length_concat_const:
  "\<forall>x \<in> set xs. length (enc x) = w \<Longrightarrow> length (concat (map enc xs)) = length xs * w"
  by (induction xs) simp_all

lemma scaled_roundtrip:
  "scaled_ok ord w d r \<Longrightarrow> of_int (order ord (encode_order ord w (raw_of d r))) / d = r"
  by (simp add: scaled_ok_def order_encode_order)

lemma encode_field_length:
  "valid_value dtw f v \<Longrightarrow> length (encode_field f v) = field_size dtw f"
proof (induction dtw f v rule: valid_value.induct)
qed (simp_all add: length_concat_const)

lemma read_encode_field:
  "valid_value dtw f v \<Longrightarrow> read dtw f (pre @ encode_field f v @ post) (length pre) = v"
proof (induction dtw f v rule: valid_value.induct)
  case (6 dtw c w ord ns)
  then show ?case
    using array_roundtrip [of ns "encode_order ord w" w "order ord" pre post]
    by (auto simp: list_all_iff order_encode_order)
next
  case (7 dtw c w ord d rs)
  then show ?case
    using array_roundtrip [of rs "\<lambda>r. encode_order ord w (raw_of d r)" w
        "\<lambda>bs. of_int (order ord bs) / d" pre post]
    by (auto simp: list_all_iff scaled_roundtrip)
qed (simp_all add: slice_middle' order_encode_order scaled_roundtrip)


section \<open>The checksum and the outcomes of \<open>parse\<close>\<close>

lemma foldl_uint_sum:
  "foldl (\<lambda>c i. c + uint i) a (xs :: bytes) = a + sum_list (map uint xs)"
  by (induction xs arbitrary: a) simp_all

lemma checksum_eq:
  assumes "1 \<le> sz" and "sz \<le> length packet"
  shows "checksum packet (int sz) =
           (if sum_list (map uint (take (sz - 1) packet)) mod 256 \<noteq> uint (packet ! (sz - 1))
            then Inl (MalformedPacketException
                       (''bad checksum for packet: '' @ repr_bytes_hex (take sz packet)))
            else Inr ())"
proof -
  have "nat (int sz - 1) = sz - 1"
    by simp
  then show ?thesis
    using assms by (simp add: checksum_def py_prefix_def py_index_def foldl_uint_sum Let_def)
qed

lemma read_fields_append:
  "read_fields dtw (xs @ ys) packet offset args =
     read_fields dtw ys packet (offset + sum_list (map (\<lambda>(key, value). field_size dtw value) xs))
       (read_fields dtw xs packet offset args)"
  by (induction xs arbitrary: offset args) (auto simp: add.assoc)

lemma read_fields_dom:
  "dom (map_of (read_fields dtw fs packet offset args)) = dom (map_of args) \<union> fst ` set fs"
proof (induction fs arbitrary: offset args)
  case Nil
  show ?case by simp
next
  case (Cons kf fs)
  obtain k f where kf: "kf = (k, f)"
    by (cases kf)
  have "dom (map_of (AList.update k (read dtw f packet offset) args)) = insert k (dom (map_of args))"
    by (simp only: update_conv' dom_fun_upd) simp
  then show ?case
    by (simp add: kf Cons.IH)
qed

lemma fields_PacketFormat_split:
  "pf_fields (PacketFormat nm n net ts) =
     butlast (butlast (pf_fields (PacketFormat nm n net ts)))
       @ [(''footer'', NumericField 2 hi_to_lo), (''checksum'', ByteField)]"
  by (simp add: fields_PacketFormat butlast_append)

lemma pf_size_split:
  "pf_size dtw (PacketFormat nm n net ts) =
     sum_list (map (\<lambda>(key, value). field_size dtw value)
       (butlast (butlast (pf_fields (PacketFormat nm n net ts))))) + 3"
  by (subst pf_size_sum_list, subst fields_PacketFormat_split) simp

lemma footer_lookup:
  "map_of (read_fields dtw (pf_fields (PacketFormat nm n net ts)) packet 0 []) ''footer'' =
     Some (VInt (assemble_hi_to_lo (slice packet (pf_size dtw (PacketFormat nm n net ts) - 3) 2)))"
  by (subst fields_PacketFormat_split, subst read_fields_append)
     (simp add: update_conv' pf_size_split)

lemma required_keys_PacketFormat:
  "{''voltage'', ''absolute_watt_seconds'', ''device_id'', ''serial_number'', ''seconds'',
    ''pulse_counts'', ''temperatures''} \<subseteq> fst ` set (pf_fields (PacketFormat nm n net ts))"
  by (simp add: fields_PacketFormat)

lemma Packet_init_total:
  assumes "{''voltage'', ''absolute_watt_seconds'', ''device_id'', ''serial_number'', ''seconds'',
    ''pulse_counts'', ''temperatures''} \<subseteq> dom (map_of args)"
  shows "\<exists>pkt. Packet_init now fmt args = Inr pkt \<and> packet_format pkt = fmt"
  using assms by (auto simp: Packet_init_def)

lemma Packet_init_format:
  "Packet_init now fmt args = Inr pkt \<Longrightarrow> packet_format pkt = fmt"
  by (auto simp: Packet_init_def split: option.splits)

lemma pf_size_ge: "43 \<le> pf_size dtw (PacketFormat nm n net ts)"
  by (simp add: pf_size_PacketFormat)

lemma parse_PacketFormat:
  "parse dtw now (PacketFormat nm n net ts) packet =
     (let self = PacketFormat nm n net ts; sz = pf_size dtw self;
          footer = assemble_hi_to_lo (slice packet (sz - 3) 2)
      in if length packet < sz
         then Inl (MalformedPacketException (too_short_message sz (length packet)))
         else if sum_list (map uint (take (sz - 1) packet)) mod 256 \<noteq> uint (packet ! (sz - 1))
         then Inl (MalformedPacketException
                    (''bad checksum for packet: '' @ repr_bytes_hex (take sz packet)))
         else if footer \<noteq> 0xFFFE
         then Inl (MalformedPacketException (bad_footer_message footer packet))
         else Packet_init now self (read_fields dtw (pf_fields self) packet 0 []))"
proof (cases "length packet < pf_size dtw (PacketFormat nm n net ts)")
  case True
  then show ?thesis by (simp add: parse_def Let_def)
next
  case False
  then have "checksum packet (int (pf_size dtw (PacketFormat nm n net ts))) =
           (if sum_list (map uint (take (pf_size dtw (PacketFormat nm n net ts) - 1) packet)) mod 256
                 \<noteq> uint (packet ! (pf_size dtw (PacketFormat nm n net ts) - 1))
            then Inl (MalformedPacketException
                       (''bad checksum for packet: ''
                          @ repr_bytes_hex (take (pf_size dtw (PacketFormat nm n net ts)) packet)))
            else Inr ())"
    using pf_size_ge [of dtw nm n net ts] by (intro checksum_eq) simp_all
  with False show ?thesis
    by (simp add: parse_def Let_def footer_lookup)
qed

lemma parse_args_total:
  "\<exists>pkt. Packet_init now (PacketFormat nm n net ts)
           (read_fields dtw (pf_fields (PacketFormat nm n net ts)) packet 0 []) = Inr pkt
         \<and> packet_format pkt = PacketFormat nm n net ts"
  using required_keys_PacketFormat [of nm n net ts]
  by (intro Packet_init_total) (simp only: read_fields_dom, blast)

lemma parse_Inr_format:
  "parse dtw now self packet = Inr pkt \<Longrightarrow> packet_format pkt = self"
  by (auto simp: parse_def Let_def split: if_splits sum.splits option.splits py_value.splits
      dest: Packet_init_format)

lemma footer_bytes_hi_to_lo: "assemble_hi_to_lo [0xFF, 0xFE] = 0xFFFE"
  by (simp add: assemble_hi_to_lo_def)

text \<open>A packet of zeroes with the footer and its checksum parses under every format.\<close>

lemma parse_zero_packet:
  assumes "sz = pf_size dtw (PacketFormat nm n net ts)"
  shows "\<exists>pkt. parse dtw now (PacketFormat nm n net ts) (replicate (sz - 3) 0 @ [0xFF, 0xFE, 0xFD] @ rest)
                 = Inr pkt"
proof -
  have "43 \<le> sz"
    using assms pf_size_ge by simp
  then have k: "sz = (sz - 3) + 3"
    by simp
  define k where "k = sz - 3"
  have k: "sz = k + 3"
    using k by (simp add: k_def)
  let ?buf = "replicate k (0 :: byte) @ [0xFF, 0xFE, 0xFD] @ rest"
  have len: "\<not> length ?buf < sz"
    by (simp add: k)
  have tk: "take (k + 2) ?buf = replicate k 0 @ [0xFF, 0xFE]"
    by (simp add: numeral_2_eq_2)
  have nth: "?buf ! (k + 2) = 0xFD"
    using nth_append_length_plus [of "replicate k (0 :: byte)" "[0xFF, 0xFE, 0xFD] @ rest" 2]
    by simp
  have ck: "sum_list (map uint (take (k + 2) ?buf)) mod 256 = uint (?buf ! (k + 2))"
    unfolding tk nth by (simp add: sum_list_replicate)
  have ft: "assemble_hi_to_lo (slice ?buf k 2) = 0xFFFE"
    by (simp add: slice_def footer_bytes_hi_to_lo numeral_2_eq_2)
  obtain pkt where "Packet_init now (PacketFormat nm n net ts)
           (read_fields dtw (pf_fields (PacketFormat nm n net ts)) ?buf 0 []) = Inr pkt"
    using parse_args_total by blast
  then have "parse dtw now (PacketFormat nm n net ts) ?buf = Inr pkt"
    using len ck ft unfolding parse_PacketFormat Let_def assms [symmetric] k
    by simp
  then show ?thesis
    unfolding k by auto
qed

lemma map_of_seconds:
  "map_of (pf_fields (PacketFormat nm n net ts)) ''seconds'' = Some (NumericField 3 lo_to_hi)"
  by (simp add: fields_PacketFormat)

lemma map_of_pulse_counts:
  "map_of (pf_fields (PacketFormat nm n net ts)) ''pulse_counts'' = Some (NumericArrayField 4 3 lo_to_hi)"
  by (simp add: fields_PacketFormat)

lemma map_of_absolute:
  "map_of (pf_fields (PacketFormat nm n net ts)) ''absolute_watt_seconds''
     = Some (NumericArrayField n 5 lo_to_hi)"
  by (simp add: fields_PacketFormat)

lemma map_of_polarized:
  "map_of (pf_fields (PacketFormat nm n net ts)) ''polarized_watt_seconds''
     = (if net then Some (NumericArrayField n 5 lo_to_hi) else None)"
  by (simp add: fields_PacketFormat)

lemma five_formats:
  assumes "fmt \<in> {BIN48_NET_TIME, BIN48_NET, BIN48_ABS, BIN32_NET, BIN32_ABS}"
  obtains nm n net ts where "fmt = PacketFormat nm n net ts"
  using assms
  by (auto simp: BIN48_NET_TIME_def BIN48_NET_def BIN48_ABS_def BIN32_NET_def BIN32_ABS_def)

lemma checksum_cases:
  assumes "1 \<le> sz" and "sz \<le> length packet"
  shows "(checksum packet (int sz) = Inr ()
            \<longleftrightarrow> sum_list (map uint (take (sz - 1) packet)) mod 256 = uint (packet ! (sz - 1)))"
    and "((\<exists>msg. checksum packet (int sz) = Inl (MalformedPacketException msg))
            \<longleftrightarrow> sum_list (map uint (take (sz - 1) packet)) mod 256 \<noteq> uint (packet ! (sz - 1)))"
    and "(checksum packet (int sz) \<noteq> Inr ()
            \<longleftrightarrow> sum_list (map uint (take (sz - 1) packet)) mod 256 \<noteq> uint (packet ! (sz - 1)))"
  using checksum_eq [OF assms] by (simp_all split: if_splits)

lemma sublist_bad_footer_message: "sublist (hexlify packet) (bad_footer_message v packet)"
  unfolding bad_footer_message_def repr_bytes_hex_def sublist_def
  by (rule exI [of _ "''bad footer '' @ py_hex v @ '' in packet: '' @ ''b'' @ [CHR 0x27]"],
      rule exI [of _ "[CHR 0x27]"]) simp

section \<open>Decoding an encoded packet\<close>

lemma valid_values_keys: "valid_values dtw fs vals \<Longrightarrow> map fst vals = map fst fs"
  by (induction dtw fs vals rule: valid_values.induct) simp_all

lemma encode_fields_length:
  "valid_values dtw fs vals \<Longrightarrow>
     length (encode_fields fs vals) = sum_list (map (\<lambda>(key, value). field_size dtw value) fs)"
  by (induction dtw fs vals rule: valid_values.induct) (simp_all add: encode_field_length)

lemma valid_values_append:
  "valid_values dtw fs1 v1 \<Longrightarrow> valid_values dtw (fs1 @ fs2) (v1 @ v2) = valid_values dtw fs2 v2"
  by (induction dtw fs1 v1 rule: valid_values.induct) simp_all

lemma encode_fields_append:
  "valid_values dtw fs1 v1 \<Longrightarrow>
     encode_fields (fs1 @ fs2) (v1 @ v2) = encode_fields fs1 v1 @ encode_fields fs2 v2"
  by (induction dtw fs1 v1 rule: valid_values.induct) simp_all

lemma read_fields_encode:
  assumes "valid_values dtw fs vals" and "distinct (map fst fs)"
  shows "map_of (read_fields dtw fs (pre @ encode_fields fs vals @ post) (length pre) acc)
           = map_of acc ++ map_of vals"
  using assms
proof (induction dtw fs vals arbitrary: pre acc rule: valid_values.induct)
  case (1 dtw)
  show ?case by simp
next
  case (2 dtw key f rest k v vs)
  then have k: "k = key" and vf: "valid_value dtw f v" and vr: "valid_values dtw rest vs"
    and dr: "distinct (map fst rest)" and nk: "key \<notin> fst ` set rest"
    by simp_all
  have rd: "read dtw f (pre @ encode_field f v @ encode_fields rest vs @ post) (length pre) = v"
    using vf by (rule read_encode_field)
  have len: "length pre + field_size dtw f = length (pre @ encode_field f v)"
    using vf by (simp add: encode_field_length)
  have "key \<notin> fst ` set vs"
    using nk valid_values_keys [OF vr] by (metis set_map)
  then have nd: "key \<notin> dom (map_of vs)"
    by (simp add: dom_map_of_conv_image_fst)
  have "map_of (read_fields dtw rest ((pre @ encode_field f v) @ encode_fields rest vs @ post)
           (length (pre @ encode_field f v)) (AList.update key v acc))
         = map_of (AList.update key v acc) ++ map_of vs"
    by (rule "2.IH" [OF vr dr])
  then have "map_of (read_fields dtw ((key, f) # rest)
           (pre @ encode_fields ((key, f) # rest) ((k, v) # vs) @ post) (length pre) acc)
         = map_of (AList.update key v acc) ++ map_of vs"
    by (simp add: rd len del: length_append)
  also have "\<dots> = map_of acc ++ map_of ((k, v) # vs)"
    using nd by (simp add: update_conv' k map_add_upd_left)
  finally show ?case .
qed simp_all

lemma distinct_keys_PacketFormat: "distinct (map fst (pf_fields (PacketFormat nm n net ts)))"
  by (simp add: fields_PacketFormat)

lemma fields_PacketFormat_butlast:
  "pf_fields (PacketFormat nm n net ts) =
     butlast (pf_fields (PacketFormat nm n net ts)) @ [(''checksum'', ByteField)]"
  by (simp add: fields_PacketFormat butlast_append)

lemma Packet_init_cong:
  assumes "map_of a = map_of b"
  shows "Packet_init now fmt a = Packet_init now fmt b"
  unfolding Packet_init_def assms by (rule refl)

lemma map_of_snoc_other: "k \<noteq> c \<Longrightarrow> map_of (vals @ [(c, x)]) k = map_of vals k"
  by (simp add: map_add_def split: option.splits)

lemma body_keys_PacketFormat:
  "{''voltage'', ''absolute_watt_seconds'', ''device_id'', ''serial_number'', ''seconds'',
    ''pulse_counts'', ''temperatures''}
     \<subseteq> fst ` set (butlast (pf_fields (PacketFormat nm n net ts)))"
  by (simp add: fields_PacketFormat butlast_append)

lemma encode_packet_parse:
  assumes "valid_packet_values dtw (PacketFormat nm n net ts) vals"
  shows "length (encode_packet (PacketFormat nm n net ts) vals) = pf_size dtw (PacketFormat nm n net ts)"
    and "parse dtw now (PacketFormat nm n net ts) (encode_packet (PacketFormat nm n net ts) vals)
           = Packet_init now (PacketFormat nm n net ts)
               (vals @ [(''checksum'', VBytes [checksum_byte
                  (encode_fields (butlast (pf_fields (PacketFormat nm n net ts))) vals)])])"
proof -
  let ?F = "PacketFormat nm n net ts"
  let ?bf = "butlast (pf_fields ?F)"
  let ?body = "encode_fields ?bf vals"
  let ?c = "checksum_byte ?body"
  let ?vals = "vals @ [(''checksum'', VBytes [?c])]"
  let ?sz = "pf_size dtw ?F"
  have vv: "valid_values dtw ?bf vals" and ft: "map_of vals ''footer'' = Some (VInt 0xFFFE)"
    using assms by (simp_all add: valid_packet_values_def)
  have pk: "encode_packet ?F vals = ?body @ [?c]"
    by (simp add: encode_packet_def Let_def)
  have "pf_size dtw ?F = sum_list (map (\<lambda>(key, value). field_size dtw value) (?bf @ [(''checksum'', ByteField)]))"
    by (subst pf_size_sum_list, subst fields_PacketFormat_butlast) (rule refl)
  then have sz: "?sz = length ?body + 1"
    by (simp add: encode_fields_length [OF vv])
  show len: "length (encode_packet ?F vals) = ?sz"
    by (simp add: pk sz)
  have vv': "valid_values dtw (?bf @ [(''checksum'', ByteField)]) ?vals"
    by (simp add: valid_values_append [OF vv])
  have enc': "encode_fields (?bf @ [(''checksum'', ByteField)]) ?vals = ?body @ [?c]"
    by (simp add: encode_fields_append [OF vv])
  have fs: "pf_fields ?F = ?bf @ [(''checksum'', ByteField)]"
    by (rule fields_PacketFormat_butlast)
  have dist: "distinct (map fst (?bf @ [(''checksum'', ByteField)]))"
    using distinct_keys_PacketFormat [of nm n net ts] by (simp only: fs [symmetric])
  have "map_of (read_fields dtw (?bf @ [(''checksum'', ByteField)])
           ([] @ encode_fields (?bf @ [(''checksum'', ByteField)]) ?vals @ []) (length ([] :: bytes)) [])
         = map_of [] ++ map_of ?vals"
    by (rule read_fields_encode [OF vv' dist])
  then have "map_of (read_fields dtw (?bf @ [(''checksum'', ByteField)]) (?body @ [?c]) 0 [])
         = map_of ?vals"
    unfolding enc' by simp
  then have args: "map_of (read_fields dtw (pf_fields ?F) (?body @ [?c]) 0 []) = map_of ?vals"
    by (simp only: fs [symmetric])
  have "map_of ?vals ''footer'' = Some (VInt 0xFFFE)"
    using ft by (simp add: map_of_snoc_other)
  then have footer: "assemble_hi_to_lo (slice (?body @ [?c]) (?sz - 3) 2) = 0xFFFE"
    using footer_lookup [of dtw nm n net ts "?body @ [?c]"] by (simp add: args)
  have ck: "sum_list (map uint (take (?sz - 1) (?body @ [?c]))) mod 256 = uint ((?body @ [?c]) ! (?sz - 1))"
    by (simp add: sz checksum_byte_def uint_byte_of_mod)
  have "parse dtw now ?F (?body @ [?c]) = Packet_init now ?F (read_fields dtw (pf_fields ?F) (?body @ [?c]) 0 [])"
    using ck footer by (simp add: parse_PacketFormat Let_def) (simp add: sz)
  then show "parse dtw now ?F (encode_packet ?F vals) = Packet_init now ?F ?vals"
    using Packet_init_cong [OF args] by (simp add: pk)
qed

lemma example_values_valid: "valid_packet_values 6 BIN32_ABS example_values"
  by (simp add: valid_packet_values_def BIN32_ABS_def fields_PacketFormat example_values_def
      scaled_ok_def raw_of_def list_all_iff set_replicate_conv_if del: of_int_floor_cancel)

section \<open>Traces of the API transaction\<close>

lemma send_request_trace:
  "\<exists>evs. fst (snd (send_request api protocol arg w)) = fst w @ evs \<and> EndApiRequest \<notin> set evs"
  by (auto simp: send_request_def split: sum.splits prod.splits)

lemma receive_response_trace:
  "fst (snd (receive_response api protocol w)) = fst w @ [ReceiveApiResponse]"
  by (auto simp: receive_response_def split: sum.splits prod.splits)

lemma send_trace:
  "\<exists>evs. fst (snd (send api protocol arg w)) = fst w @ evs \<and> EndApiRequest \<notin> set evs"
proof -
  obtain r w1 where Pair: "send_request api protocol arg w = (r, w1)"
    by (cases "send_request api protocol arg w")
  obtain evs where evs: "fst w1 = fst w @ evs" "EndApiRequest \<notin> set evs"
    using send_request_trace [of api protocol arg w] Pair by auto
  show ?thesis
  proof (cases r)
    case (Inl e)
    then show ?thesis
      using Pair evs by (simp add: send_def)
  next
    case (Inr delay)
    then have "fst (snd (send api protocol arg w)) =
        fst w @ (evs @ [Sleep (td_seconds delay), ReceiveApiResponse])"
      using Pair evs by (simp add: send_def receive_response_trace sleep_def)
    moreover have "EndApiRequest \<notin> set (evs @ [Sleep (td_seconds delay), ReceiveApiResponse])"
      using evs by simp
    ultimately show ?thesis
      by blast
  qed
qed

lemma run_block_trace:
  assumes "\<And>arg w. \<exists>evs. fst (snd (f arg w)) = fst w @ evs \<and> EndApiRequest \<notin> set evs"
  shows "\<exists>evs. fst (snd (run_block f body w)) = fst w @ evs \<and> EndApiRequest \<notin> set evs"
proof (induction body arbitrary: w)
  case (Return b)
  show ?case by simp
next
  case (Raise e)
  show ?case by simp
next
  case (Call arg k)
  obtain r w1 where f: "f arg w = (r, w1)"
    by (cases "f arg w")
  obtain evs1 where e1: "fst w1 = fst w @ evs1" "EndApiRequest \<notin> set evs1"
    using assms [of arg w] f by auto
  obtain evs2 where e2: "fst (snd (run_block f (k r) w1)) = fst w1 @ evs2" "EndApiRequest \<notin> set evs2"
    using Call.IH [of "k r" w1] by auto
  have "fst (snd (run_block f (Call arg k) w)) = fst w @ (evs1 @ evs2)"
    using f e1 e2 by simp
  moreover have "EndApiRequest \<notin> set (evs1 @ evs2)"
    using e1 e2 by simp
  ultimately show ?case
    by blast
qed

lemma call_api_trace:
  assumes "fst (begin_api_request protocol (snd w)) = Inr delay"
  shows "\<exists>evs. fst (snd (call_api api protocol body w)) =
           fst w @ [BeginApiRequest, Sleep (td_seconds delay)] @ evs @ [EndApiRequest]
         \<and> EndApiRequest \<notin> set evs"
proof -
  obtain p where b: "begin_api_request protocol (snd w) = (Inr delay, p)"
    using assms by (cases "begin_api_request protocol (snd w)") simp
  let ?w1 = "sleep (td_seconds delay) (fst w @ [BeginApiRequest], p)"
  obtain res w2 where rb: "run_block (send api protocol) body ?w1 = (res, w2)"
    by (cases "run_block (send api protocol) body ?w1")
  obtain evs where evs: "fst w2 = fst ?w1 @ evs" "EndApiRequest \<notin> set evs"
    using run_block_trace [of "send api protocol" body ?w1, OF send_trace] rb by auto
  obtain r3 p3 where e: "end_api_request protocol (snd w2) = (r3, p3)"
    by (cases "end_api_request protocol (snd w2)")
  have "fst (snd (call_api api protocol body w)) = fst w2 @ [EndApiRequest]"
    using b rb e by (cases r3) (simp_all add: call_api_def)
  then have "fst (snd (call_api api protocol body w)) =
           fst w @ [BeginApiRequest, Sleep (td_seconds delay)] @ evs @ [EndApiRequest]"
    using evs by (simp add: sleep_def)
  then show ?thesis
    using evs by blast
qed

lemma call_api_begin_raises:
  assumes "fst (begin_api_request protocol (snd w)) = Inl e"
  shows "fst (call_api api protocol body w) = Inl e"
    and "fst (snd (call_api api protocol body w)) = fst w @ [BeginApiRequest]"
  using assms by (cases "begin_api_request protocol (snd w)"; simp add: call_api_def)+

lemma py_int_123456: "py_int ''123456'' = Inr 123456"
  by (simp add: py_int_def strip_def is_space_def is_digit_def digit_value_def)

lemma py_int_abc: "py_int ''abc'' = Inl ValueError"
  by (simp add: py_int_def strip_def is_space_def is_digit_def digit_value_def)

lemma send_order:
  assumes "format_request api arg = Inr text"
    and "send_api_request protocol text (snd w) = (Inr delay, p)"
  shows "fst (snd (send api protocol arg w)) =
           fst w @ [SendApiRequest text, Sleep (td_seconds delay), ReceiveApiResponse]"
  using assms by (simp add: send_def send_request_def receive_response_trace sleep_def)

section \<open>Decimal text\<close>

lemma is_digit_plain:
  "is_digit c \<Longrightarrow> c \<noteq> CHR ''_'' \<and> c \<noteq> CHR ''-'' \<and> c \<noteq> CHR ''+'' \<and> \<not> is_space c"
  by (auto simp: is_digit_def is_space_def Let_def)

lemma parse_digits_all_digits:
  "list_all is_digit ds \<Longrightarrow>
     parse_digits acc b ds =
       (if ds = [] then (if b then Inr acc else Inl ValueError)
        else Inr (foldl (\<lambda>acc c. acc * 10 + digit_value c) acc ds))"
  by (induction ds arbitrary: acc b) (auto simp: is_digit_plain)

lemma strip_digits:
  assumes "ds \<noteq> []" and "list_all is_digit ds"
  shows "strip ds = ds"
proof -
  have "\<not> is_space (hd ds)" "\<not> is_space (last ds)"
    using assms by (auto simp: list_all_iff is_digit_plain)
  then have "dropWhile is_space ds = ds" "dropWhile is_space (rev ds) = rev ds"
    using assms(1) by (auto simp: dropWhile_eq_self_iff hd_rev)
  then show ?thesis
    by (simp add: strip_def)
qed

lemma py_int_digits:
  assumes "ds \<noteq> []" and "list_all is_digit ds"
  shows "py_int ds = Inr (decimal ds)"
proof -
  obtain c cs where ds: "ds = c # cs"
    using assms(1) by (cases ds) auto
  have "is_digit c"
    using assms(2) ds by simp
  then have "c \<noteq> CHR ''-''" "c \<noteq> CHR ''+''"
    using is_digit_plain by blast+
  then have "py_int ds = parse_digits 0 False ds"
    unfolding py_int_def strip_digits [OF assms] by (simp add: ds)
  then show ?thesis
    using parse_digits_all_digits [OF assms(2), of 0 False] assms(1)
    by (simp add: decimal_def)
qed

section \<open>The counting transport\<close>

lemma counting_send:
  "send api (counting protocol) arg (tr, (n, p)) =
     (case send api protocol arg (tr, p) of (r, (tr', p')) \<Rightarrow> (r, (tr', (n, p'))))"
  by (auto simp: send_def send_request_def receive_response_def sleep_def counting_def
      split: sum.splits prod.splits)

lemma counting_run_block:
  "run_block (send api (counting protocol)) body (tr, (n, p)) =
     (case run_block (send api protocol) body (tr, p) of (r, (tr', p')) \<Rightarrow> (r, (tr', (n, p'))))"
proof (induction body arbitrary: tr p)
  case (Return b)
  show ?case by simp
next
  case (Raise e)
  show ?case by simp
next
  case (Call arg k)
  obtain r tr1 p1 where s: "send api protocol arg (tr, p) = (r, (tr1, p1))"
    by (cases "send api protocol arg (tr, p)") auto
  have "run_block (send api (counting protocol)) (k r) (tr1, (n, p1)) =
     (case run_block (send api protocol) (k r) (tr1, p1) of (r, (tr', p')) \<Rightarrow> (r, (tr', (n, p'))))"
    by (rule Call.IH) simp
  then show ?case
    by (simp add: counting_send s)
qed

lemma counting_call_api:
  "call_api api (counting protocol) body (tr, (n, p)) =
     (case call_api api protocol body (tr, p) of
        (r, (tr', p')) \<Rightarrow>
          (r, (tr', (if isl (fst (begin_api_request protocol p)) then n else Suc n, p'))))"
proof -
  obtain rb pb where b: "begin_api_request protocol p = (rb, pb)"
    by (cases "begin_api_request protocol p")
  show ?thesis
  proof (cases rb)
    case (Inl e)
    then show ?thesis
      using b by (simp add: call_api_def counting_def)
  next
    case (Inr delay)
    obtain res tr2 p2 where rb: "run_block (send api protocol) body
        (sleep (td_seconds delay) (tr @ [BeginApiRequest], pb)) = (res, (tr2, p2))"
      by (cases "run_block (send api protocol) body
        (sleep (td_seconds delay) (tr @ [BeginApiRequest], pb))") auto
    then have rb': "run_block (send api (counting protocol)) body
        (sleep (td_seconds delay) (tr @ [BeginApiRequest], (n, pb))) = (res, (tr2, (n, p2)))"
      by (simp add: sleep_def counting_run_block)
    obtain re pe where e: "end_api_request protocol p2 = (re, pe)"
      by (cases "end_api_request protocol p2")
    have b': "begin_api_request (counting protocol) (n, p) = (Inr delay, (n, pb))"
      using b Inr by (simp add: counting_def)
    have e': "end_api_request (counting protocol) (n, p2) = (re, (Suc n, pe))"
      using e by (simp add: counting_def)
    show ?thesis
      using b Inr rb rb' e e' b' by (cases re) (simp_all add: call_api_def)
  qed
qed

section \<open>Hexadecimal text\<close>

lemma hex_value_hexdigit:
  assumes "k < 16"
  shows "hex_value (hexdigit k) = Some k"
proof -
  have "k = 0 \<or> k = 1 \<or> k = 2 \<or> k = 3 \<or> k = 4 \<or> k = 5 \<or> k = 6 \<or> k = 7
      \<or> k = 8 \<or> k = 9 \<or> k = 10 \<or> k = 11 \<or> k = 12 \<or> k = 13 \<or> k = 14 \<or> k = 15"
    using assms by arith
  then show ?thesis
    by (elim disjE) (simp_all add: hexdigit_def hex_value_def)
qed

lemma hexlify_Cons:
  "hexlify (b # bs) = hexdigit (unat b div 16) # hexdigit (unat b mod 16) # hexlify bs"
  by (simp add: hexlify_def)

lemma hexlify_length: "length (hexlify bs) = 2 * length bs"
  by (induction bs) (simp_all add: hexlify_Cons, simp add: hexlify_def)

lemma hexlify_nth:
  "i < length bs \<Longrightarrow>
     hexlify bs ! (2 * i) = hexdigit (unat (bs ! i) div 16)
     \<and> hexlify bs ! (2 * i + 1) = hexdigit (unat (bs ! i) mod 16)"
proof (induction bs arbitrary: i)
  case Nil
  then show ?case by simp
next
  case (Cons b bs)
  show ?case
  proof (cases i)
    case 0
    then show ?thesis by (simp add: hexlify_Cons)
  next
    case (Suc j)
    then have "j < length bs"
      using Cons.prems by simp
    then show ?thesis
      using Cons.IH [of j] Suc by (simp add: hexlify_Cons)
  qed
qed

lemma hexlify_reads_back:
  assumes "i < length bs"
  shows "hex_value (hexlify bs ! (2 * i)) = Some (unat (bs ! i) div 16)"
    and "hex_value (hexlify bs ! (2 * i + 1)) = Some (unat (bs ! i) mod 16)"
proof -
  have "unat (bs ! i) < 2 ^ LENGTH(8)"
    by (rule unsigned_less)
  then have "unat (bs ! i) < 256"
    by simp
  then have "unat (bs ! i) div 16 < 16" "unat (bs ! i) mod 16 < 16"
    by simp_all
  then show "hex_value (hexlify bs ! (2 * i)) = Some (unat (bs ! i) div 16)"
    and "hex_value (hexlify bs ! (2 * i + 1)) = Some (unat (bs ! i) mod 16)"
    using hexlify_nth [OF assms] by (simp_all add: hex_value_hexdigit)
qed

lemma hexlify_append: "hexlify (xs @ ys) = hexlify xs @ hexlify ys"
  by (simp add: hexlify_def)

lemma hexlify_replicate_zero: "hexlify (replicate k 0) = concat (replicate k ''00'')"
  by (induction k) (simp_all add: hexlify_Cons hexdigit_def, simp add: hexlify_def)

lemma py_hex_abcd: "py_hex 0xABCD = ''0xabcd''"
  by (simp add: py_hex_def hex_digits.simps hexdigit_def)

section \<open>Verified properties\<close>

text \<open>
  C7. The size of a format is the sum of the widths of its declared fields. For the five
  variants this is 619 bytes plus the timestamp's width, 619, 379, 429 and 269 bytes. A
  channel takes 12 bytes in a net-metering format (two 5-byte counters and a 2-byte
  current) and 7 bytes in an absolute-only one; with the channel bytes taken off, each
  32-channel format is exactly 2 bytes larger than its 48-channel counterpart: the spare
  bytes.
\<close>

theorem size_is_sum_of_field_widths:
  "pf_size dtw fmt = sum_list (map (\<lambda>(key, value). field_size dtw value) (pf_fields fmt))
   \<and> pf_size dtw BIN48_NET_TIME = 619 + dtw
   \<and> pf_size dtw BIN48_NET = 619
   \<and> pf_size dtw BIN48_ABS = 379
   \<and> pf_size dtw BIN32_NET = 429
   \<and> pf_size dtw BIN32_ABS = 269
   \<and> int (pf_size dtw BIN32_NET) - 32 * 12 = (int (pf_size dtw BIN48_NET) - 48 * 12) + 2
   \<and> int (pf_size dtw BIN32_ABS) - 32 * 7 = (int (pf_size dtw BIN48_ABS) - 48 * 7) + 2"
  using pf_size_sum_list [of dtw fmt] by (simp add: pf_size_five)

text \<open>
  C9. For every packet that \<open>parse\<close> returns under one of the five formats, the
  declared maxima are the largest values of the fields' byte widths: \<open>max_seconds\<close> and
  \<open>max_pulse_count\<close> are \<open>2^24 - 1\<close> (3-byte fields), \<open>max_absolute_watt_seconds\<close> is
  \<open>2^40 - 1\<close> (5-byte elements).
\<close>

theorem declared_maxima:
  assumes "fmt \<in> {BIN48_NET_TIME, BIN48_NET, BIN48_ABS, BIN32_NET, BIN32_ABS}"
    and "parse dtw now fmt packet = Inr pkt"
  shows "max_seconds pkt = Inr (2 ^ 24 - 1)
       \<and> max_pulse_count pkt = Inr (2 ^ 24 - 1)
       \<and> max_absolute_watt_seconds pkt = Inr (2 ^ 40 - 1)"
proof -
  obtain nm n net ts where fmt: "fmt = PacketFormat nm n net ts"
    using assms(1) by (rule five_formats)
  have pf: "packet_format pkt = PacketFormat nm n net ts"
    using assms(2) fmt parse_Inr_format by blast
  show ?thesis
    by (simp add: max_seconds_def max_pulse_count_def max_absolute_watt_seconds_def pf
        map_of_seconds map_of_pulse_counts map_of_absolute field_max_def)
qed

theorem declared_maxima_witness:
  "\<exists>pkt. parse 6 (DateTime []) BIN32_ABS (replicate 266 0 @ [0xFF, 0xFE, 0xFD]) = Inr pkt
       \<and> max_seconds pkt = Inr 16777215
       \<and> max_pulse_count pkt = Inr 16777215
       \<and> max_absolute_watt_seconds pkt = Inr 1099511627775"
proof -
  obtain pkt where p: "parse 6 (DateTime []) BIN32_ABS (replicate 266 0 @ [0xFF, 0xFE, 0xFD]) = Inr pkt"
    using parse_zero_packet [of 269 6 "''BIN32-ABS''" 32 False False "DateTime []" "[]"]
    by (auto simp: pf_size_five [unfolded BIN32_ABS_def] BIN32_ABS_def)
  have "BIN32_ABS \<in> {BIN48_NET_TIME, BIN48_NET, BIN48_ABS, BIN32_NET, BIN32_ABS}"
    by simp
  from declared_maxima [OF this p] p show ?thesis
    by simp
qed

text \<open>
  C10. For a packet parsed under an absolute-only format (BIN48-ABS, BIN32-ABS), reading
  \<open>max_polarized_watt_seconds\<close> fails: the lookup of the absent field
  \<open>polarized_watt_seconds\<close> raises \<open>KeyError\<close>. Under the net-metering formats it
  returns \<open>2^40 - 1\<close>.
\<close>

theorem polarized_maximum_absent_without_net_metering:
  assumes "parse dtw now fmt packet = Inr pkt"
  shows "(fmt \<in> {BIN48_ABS, BIN32_ABS} \<longrightarrow>
            max_polarized_watt_seconds pkt = Inl (KeyError ''polarized_watt_seconds''))
       \<and> (fmt \<in> {BIN48_NET_TIME, BIN48_NET, BIN32_NET} \<longrightarrow>
            max_polarized_watt_seconds pkt = Inr (2 ^ 40 - 1))"
proof -
  have pf: "packet_format pkt = fmt"
    using assms by (rule parse_Inr_format)
  show ?thesis
    by (auto simp: max_polarized_watt_seconds_def pf map_of_polarized field_max_def
        BIN48_NET_TIME_def BIN48_NET_def BIN48_ABS_def BIN32_NET_def BIN32_ABS_def)
qed

theorem polarized_maximum_absent_witness:
  "(\<exists>pkt. parse 6 (DateTime []) BIN32_ABS (replicate 266 0 @ [0xFF, 0xFE, 0xFD]) = Inr pkt
       \<and> max_polarized_watt_seconds pkt = Inl (KeyError ''polarized_watt_seconds''))
   \<and> (\<exists>pkt. parse 6 (DateTime []) BIN32_NET (replicate 426 0 @ [0xFF, 0xFE, 0xFD]) = Inr pkt
       \<and> max_polarized_watt_seconds pkt = Inr 1099511627775)"
proof -
  obtain p1 where p1: "parse 6 (DateTime []) BIN32_ABS (replicate 266 0 @ [0xFF, 0xFE, 0xFD]) = Inr p1"
    using parse_zero_packet [of 269 6 "''BIN32-ABS''" 32 False False "DateTime []" "[]"]
    by (auto simp: pf_size_five [unfolded BIN32_ABS_def] BIN32_ABS_def)
  obtain p2 where p2: "parse 6 (DateTime []) BIN32_NET (replicate 426 0 @ [0xFF, 0xFE, 0xFD]) = Inr p2"
    using parse_zero_packet [of 429 6 "''BIN32-NET''" 32 True False "DateTime []" "[]"]
    by (auto simp: pf_size_five [unfolded BIN32_NET_def] BIN32_NET_def)
  from polarized_maximum_absent_without_net_metering [OF p1]
    polarized_maximum_absent_without_net_metering [OF p2] p1 p2
  show ?thesis
    by simp
qed

text \<open>
  C2. For every buffer and every format built by \<open>PacketFormat\<close> (the five variants are
  such formats), \<open>parse\<close> raises \<open>MalformedPacketException\<close> exactly when the buffer is
  shorter than the format's size, or the checksum check fails, or the decoded footer is
  not \<open>0xFFFE\<close>; otherwise it returns a packet. There is no third outcome: a failing
  \<open>parse\<close> produces no packet.
\<close>

theorem parse_malformed_exactly_when:
  assumes "self = PacketFormat nm n net ts" and "sz = pf_size dtw self"
  shows "((\<exists>msg. parse dtw now self packet = Inl (MalformedPacketException msg)) \<longleftrightarrow>
            (length packet < sz
             \<or> checksum packet (int sz) \<noteq> Inr ()
             \<or> map_of (read_fields dtw (pf_fields self) packet 0 []) ''footer'' \<noteq> Some (VInt 0xFFFE)))
       \<and> ((\<exists>pkt. parse dtw now self packet = Inr pkt \<and> packet_format pkt = self) \<longleftrightarrow>
            (sz \<le> length packet
             \<and> checksum packet (int sz) = Inr ()
             \<and> map_of (read_fields dtw (pf_fields self) packet 0 []) ''footer'' = Some (VInt 0xFFFE)))
       \<and> ((\<exists>msg. parse dtw now self packet = Inl (MalformedPacketException msg))
            \<or> (\<exists>pkt. parse dtw now self packet = Inr pkt))"
proof (cases "length packet < sz")
  case True
  then show ?thesis
    using assms by (simp add: parse_def)
next
  case False
  have sz: "1 \<le> sz" "sz \<le> length packet"
    using False assms pf_size_ge [of dtw nm n net ts] by simp_all
  note ck = checksum_cases [OF sz]
  obtain pkt where pkt: "Packet_init now self (read_fields dtw (pf_fields self) packet 0 []) = Inr pkt"
    "packet_format pkt = self"
    using parse_args_total [of now nm n net ts dtw packet] assms(1) by blast
  have ft: "map_of (read_fields dtw (pf_fields self) packet 0 []) ''footer'' =
     Some (VInt (assemble_hi_to_lo (slice packet (sz - 3) 2)))"
    using assms by (simp add: footer_lookup)
  have p: "parse dtw now self packet =
      (if sum_list (map uint (take (sz - 1) packet)) mod 256 \<noteq> uint (packet ! (sz - 1))
       then Inl (MalformedPacketException
                    (''bad checksum for packet: '' @ repr_bytes_hex (take sz packet)))
       else if assemble_hi_to_lo (slice packet (sz - 3) 2) \<noteq> 0xFFFE
       then Inl (MalformedPacketException
                    (bad_footer_message (assemble_hi_to_lo (slice packet (sz - 3) 2)) packet))
       else Inr pkt)"
    using False pkt assms by (simp add: parse_PacketFormat Let_def)
  show ?thesis
    using False sz(2) pkt(2) unfolding p ck ft by auto
qed

theorem parse_malformed_exactly_when_witness:
  "(\<exists>msg. parse 6 (DateTime []) BIN32_ABS [] = Inl (MalformedPacketException msg))
   \<and> (\<exists>msg. parse 6 (DateTime []) BIN32_ABS (replicate 269 0) = Inl (MalformedPacketException msg))"
proof -
  have a: "BIN32_ABS = PacketFormat ''BIN32-ABS'' 32 False False"
    by (simp add: BIN32_ABS_def)
  have b: "269 = pf_size 6 BIN32_ABS"
    by (simp add: pf_size_five)
  have c: "map_of (read_fields 6 (pf_fields BIN32_ABS) (replicate 269 0) 0 []) ''footer'' \<noteq> Some (VInt 0xFFFE)"
    unfolding a footer_lookup
    by (simp add: pf_size_five [unfolded a] slice_def assemble_hi_to_lo_def numeral_2_eq_2)
  show ?thesis
    using parse_malformed_exactly_when [OF a b, of "DateTime []" "[]"]
      parse_malformed_exactly_when [OF a b, of "DateTime []" "replicate 269 0"] c
    by simp
qed

text \<open>
  C3, as amended. For every buffer at least as long as the format's size \<open>sz\<close>, the
  checksum validation sums the first \<open>sz - 1\<close> bytes mod 256 and fails with
  \<open>MalformedPacketException\<close> if and only if that value differs from the byte at index
  \<open>sz - 1\<close>; bytes beyond the format's size take no part. When the buffer's length is
  exactly \<open>sz\<close>, these are all bytes except the last, and the last byte.
\<close>

theorem checksum_over_declared_size:
  assumes "self = PacketFormat nm n net ts" and "sz = pf_size dtw self" and "sz \<le> length packet"
  shows "((\<exists>msg. checksum packet (int sz) = Inl (MalformedPacketException msg)) \<longleftrightarrow>
            sum_list (map uint (take (sz - 1) packet)) mod 256 \<noteq> uint (packet ! (sz - 1)))
       \<and> (checksum packet (int sz) = Inr () \<longleftrightarrow>
            sum_list (map uint (take (sz - 1) packet)) mod 256 = uint (packet ! (sz - 1)))
       \<and> (sum_list (map uint (take (sz - 1) packet)) mod 256 \<noteq> uint (packet ! (sz - 1)) \<longrightarrow>
            (\<exists>msg. parse dtw now self packet = Inl (MalformedPacketException msg)))
       \<and> (length packet = sz \<longrightarrow>
            take (sz - 1) packet = butlast packet \<and> packet ! (sz - 1) = last packet)"
proof -
  have sz: "1 \<le> sz" "sz \<le> length packet"
    using assms pf_size_ge [of dtw nm n net ts] by simp_all
  have ne: "packet \<noteq> []"
    using sz by auto
  have "\<not> length packet < pf_size dtw (PacketFormat nm n net ts)"
    using assms by simp
  then have "sum_list (map uint (take (sz - 1) packet)) mod 256 \<noteq> uint (packet ! (sz - 1)) \<longrightarrow>
      (\<exists>msg. parse dtw now self packet = Inl (MalformedPacketException msg))"
    using assms by (simp add: parse_PacketFormat Let_def)
  moreover have "length packet = sz \<longrightarrow>
      take (sz - 1) packet = butlast packet \<and> packet ! (sz - 1) = last packet"
    using ne by (auto simp: butlast_conv_take last_conv_nth)
  ultimately show ?thesis
    using checksum_cases(1,2) [OF sz] by blast
qed

theorem checksum_over_declared_size_witness:
  "checksum (replicate 266 0 @ [0xFF, 0xFE, 0xFD, 0x00]) (int 269) = Inr ()
   \<and> (\<exists>msg. checksum (replicate 266 0 @ [0xFF, 0xFE, 0xFC, 0xFC]) (int 269)
         = Inl (MalformedPacketException msg))"
proof -
  have a: "BIN32_ABS = PacketFormat ''BIN32-ABS'' 32 False False"
    by (simp add: BIN32_ABS_def)
  have b: "269 = pf_size 6 BIN32_ABS"
    by (simp add: pf_size_five)
  show ?thesis
    using checksum_over_declared_size [OF a b, of "replicate 266 0 @ [0xFF, 0xFE, 0xFD, 0x00]" "DateTime []"]
      checksum_over_declared_size [OF a b, of "replicate 266 0 @ [0xFF, 0xFE, 0xFC, 0xFC]" "DateTime []"]
    by (simp add: sum_list_replicate nth_append)
qed

text \<open>
  C3, as stated, speaks of all bytes except the last and of the last byte of the buffer.
  A valid 269-byte BIN32-ABS packet followed by one more byte has length at least the
  size; the sum of all its bytes except the last, mod 256, differs from its last byte;
  yet the checksum validation passes and \<open>parse\<close> returns a packet.
\<close>

theorem checksum_last_byte_counterexample:
  "pf_size 6 BIN32_ABS \<le> length (replicate 266 (0 :: byte) @ [0xFF, 0xFE, 0xFD, 0x00])
   \<and> sum_list (map uint (butlast (replicate 266 (0 :: byte) @ [0xFF, 0xFE, 0xFD, 0x00]))) mod 256
        \<noteq> uint (last (replicate 266 (0 :: byte) @ [0xFF, 0xFE, 0xFD, 0x00]))
   \<and> checksum (replicate 266 0 @ [0xFF, 0xFE, 0xFD, 0x00]) (int (pf_size 6 BIN32_ABS)) = Inr ()
   \<and> \<not> isl (parse 6 (DateTime []) BIN32_ABS (replicate 266 0 @ [0xFF, 0xFE, 0xFD, 0x00]))"
proof -
  have ck: "checksum (replicate 266 0 @ [0xFF, 0xFE, 0xFD, 0x00]) (int 269) = Inr ()"
    by (subst checksum_eq) (simp_all add: sum_list_replicate nth_append)
  obtain pkt where "parse 6 (DateTime []) BIN32_ABS (replicate 266 0 @ [0xFF, 0xFE, 0xFD] @ [0x00]) = Inr pkt"
    using parse_zero_packet [of 269 6 "''BIN32-ABS''" 32 False False "DateTime []" "[0]"]
    by (auto simp: pf_size_five [unfolded BIN32_ABS_def] BIN32_ABS_def)
  then have "\<not> isl (parse 6 (DateTime []) BIN32_ABS (replicate 266 0 @ [0xFF, 0xFE, 0xFD, 0x00]))"
    by simp
  then show ?thesis
    using ck by (simp add: pf_size_five sum_list_replicate butlast_append)
qed

text \<open>
  C1. Round trip. For each of the five formats and every choice of valid field values
  (each value fits its field's width, byte order and scale; the footer is \<open>0xFFFE\<close>),
  the buffer that encodes the values in declared field order, followed by the checksum
  byte (the sum of the preceding bytes mod 256), has the format's size, \<open>parse\<close> succeeds
  on it, and the returned packet holds exactly those values: voltage, absolute and
  polarized watt-seconds, serial number, device id, seconds, currents, pulse counts and
  temperatures.
\<close>

theorem parse_roundtrip:
  assumes "fmt \<in> {BIN48_NET_TIME, BIN48_NET, BIN48_ABS, BIN32_NET, BIN32_ABS}"
    and "valid_packet_values dtw fmt vals"
  shows "length (encode_packet fmt vals) = pf_size dtw fmt
       \<and> (\<exists>pkt. parse dtw now fmt (encode_packet fmt vals) = Inr pkt
             \<and> packet_format pkt = fmt
             \<and> Some (voltage pkt) = map_of vals ''voltage''
             \<and> Some (absolute_watt_seconds pkt) = map_of vals ''absolute_watt_seconds''
             \<and> polarized_watt_seconds pkt = map_of vals ''polarized_watt_seconds''
             \<and> Some (serial_number pkt) = map_of vals ''serial_number''
             \<and> Some (device_id pkt) = map_of vals ''device_id''
             \<and> Some (seconds pkt) = map_of vals ''seconds''
             \<and> currents pkt = map_of vals ''currents''
             \<and> Some (pulse_counts pkt) = map_of vals ''pulse_counts''
             \<and> Some (temperatures pkt) = map_of vals ''temperatures'')"
proof -
  obtain nm n net ts where fmt: "fmt = PacketFormat nm n net ts"
    using assms(1) by (rule five_formats)
  let ?c = "VBytes [checksum_byte (encode_fields (butlast (pf_fields fmt)) vals)]"
  have v: "valid_packet_values dtw (PacketFormat nm n net ts) vals"
    using assms(2) fmt by simp
  have len: "length (encode_packet fmt vals) = pf_size dtw fmt"
    using encode_packet_parse(1) [OF v] fmt by simp
  have p: "parse dtw now fmt (encode_packet fmt vals) = Packet_init now fmt (vals @ [(''checksum'', ?c)])"
    using encode_packet_parse(2) [OF v] fmt by simp
  have "map fst vals = map fst (butlast (pf_fields fmt))"
    using assms(2) by (auto simp: valid_packet_values_def dest: valid_values_keys)
  then have "fst ` set vals = fst ` set (butlast (pf_fields fmt))"
    by (metis set_map)
  then have keys: "{''voltage'', ''absolute_watt_seconds'', ''device_id'', ''serial_number'',
      ''seconds'', ''pulse_counts'', ''temperatures''} \<subseteq> dom (map_of vals)"
    using body_keys_PacketFormat [of nm n net ts] fmt by (simp add: dom_map_of_conv_image_fst)
  then obtain vo ab de sn se pc te where look:
    "map_of vals ''voltage'' = Some vo" "map_of vals ''absolute_watt_seconds'' = Some ab"
    "map_of vals ''device_id'' = Some de" "map_of vals ''serial_number'' = Some sn"
    "map_of vals ''seconds'' = Some se" "map_of vals ''pulse_counts'' = Some pc"
    "map_of vals ''temperatures'' = Some te"
    by (auto simp: dom_def)
  have "\<exists>pkt. Packet_init now fmt (vals @ [(''checksum'', ?c)]) = Inr pkt
      \<and> packet_format pkt = fmt
      \<and> voltage pkt = vo \<and> absolute_watt_seconds pkt = ab
      \<and> polarized_watt_seconds pkt = map_of vals ''polarized_watt_seconds''
      \<and> serial_number pkt = sn \<and> device_id pkt = de \<and> seconds pkt = se
      \<and> currents pkt = map_of vals ''currents''
      \<and> pulse_counts pkt = pc \<and> temperatures pkt = te"
    by (simp add: Packet_init_def map_of_snoc_other look del: map_of_append)
  then show ?thesis
    using len by (auto simp: p look)
qed

theorem parse_roundtrip_witness:
  "\<exists>pkt. parse 6 (DateTime []) BIN32_ABS (encode_packet BIN32_ABS example_values) = Inr pkt
     \<and> voltage pkt = VFloat 120
     \<and> absolute_watt_seconds pkt = VIntList (replicate 32 1099511627775)
     \<and> polarized_watt_seconds pkt = None
     \<and> serial_number pkt = VInt 12345
     \<and> device_id pkt = VInt 7
     \<and> seconds pkt = VInt 16777215
     \<and> currents pkt = Some (VFloatList (replicate 32 5))
     \<and> pulse_counts pkt = VIntList [0, 1, 2, 16777215]
     \<and> temperatures pkt = VFloatList [-10, 0, 1 / 2, 21, - 1 / 2, 100, -16384, 32767 / 2]"
proof -
  have "BIN32_ABS \<in> {BIN48_NET_TIME, BIN48_NET, BIN48_ABS, BIN32_NET, BIN32_ABS}"
    by simp
  from parse_roundtrip [OF this example_values_valid, of "DateTime []"]
  show ?thesis
    by (auto simp: example_values_def)
qed

text \<open>
  C5. The order holds (\<open>send_order\<close>: send, then sleep, then receive), but the sleep is
  given \<open>delay.seconds\<close>, the whole-seconds component of the returned \<open>timedelta\<close>, not
  the delay: with a transport whose delays are half a second, both sleeps are of 0
  seconds.
\<close>

theorem sleep_drops_subsecond_delay:
  "get_serial_number cmd
     (fixed_transport \<lparr>td_days = 0, td_seconds = 0, td_microseconds = 500000\<rparr> ''123456'') ([], ())
     = (Inr 123456,
        ([BeginApiRequest, Sleep 0, SendApiRequest cmd, Sleep 0, ReceiveApiResponse, EndApiRequest], ()))
   \<and> total_microseconds \<lparr>td_days = 0, td_seconds = 0, td_microseconds = 500000\<rparr> = 500000"
  by (simp add: get_serial_number_def call_api_def send_def send_request_def
      receive_response_def sleep_def GET_SERIAL_NUMBER_def fixed_transport_def py_int_123456
      total_microseconds_def)

text \<open>
  C8. The formatter of \<open>GET_SERIAL_NUMBER\<close> ignores its argument and emits the command
  literal; its parser turns decimal text into the integer it denotes; and
  \<open>get_serial_number\<close>, on a transport whose calls succeed and whose
  \<open>receive_api_response\<close> returns \<open>"123456"\<close>, returns the integer 123456.
\<close>

theorem get_serial_number_returns_integer:
  "format_request (GET_SERIAL_NUMBER cmd) arg = Inr cmd
   \<and> (ds \<noteq> [] \<and> list_all is_digit ds \<longrightarrow>
        parse_response (GET_SERIAL_NUMBER cmd) ds = Inr (decimal ds))
   \<and> parse_response (GET_SERIAL_NUMBER cmd) ''123456'' = Inr 123456
   \<and> ((\<forall>p. \<exists>d p'. begin_api_request protocol p = (Inr d, p'))
        \<and> (\<forall>request p. \<exists>d p'. send_api_request protocol request p = (Inr d, p'))
        \<and> (\<forall>p. \<exists>p'. receive_api_response protocol p = (Inr ''123456'', p'))
        \<and> (\<forall>p. \<exists>p'. end_api_request protocol p = (Inr (), p'))
       \<longrightarrow> fst (get_serial_number cmd protocol w) = Inr 123456)"
proof -
  have "fst (get_serial_number cmd protocol w) = Inr 123456"
    if b: "\<forall>p. \<exists>d p'. begin_api_request protocol p = (Inr d, p')"
      and s: "\<forall>request p. \<exists>d p'. send_api_request protocol request p = (Inr d, p')"
      and r: "\<forall>p. \<exists>p'. receive_api_response protocol p = (Inr ''123456'', p')"
      and e: "\<forall>p. \<exists>p'. end_api_request protocol p = (Inr (), p')"
  proof -
    obtain d1 p1 where 1: "begin_api_request protocol (snd w) = (Inr d1, p1)"
      using b by blast
    obtain d2 p2 where 2: "send_api_request protocol cmd p1 = (Inr d2, p2)"
      using s by blast
    obtain p3 where 3: "receive_api_response protocol p2 = (Inr ''123456'', p3)"
      using r by blast
    obtain p4 where 4: "end_api_request protocol p3 = (Inr (), p4)"
      using e by blast
    show ?thesis
      by (simp add: get_serial_number_def call_api_def send_def send_request_def
          receive_response_def sleep_def GET_SERIAL_NUMBER_def 1 2 3 4 py_int_123456)
  qed
  then show ?thesis
    by (simp add: GET_SERIAL_NUMBER_def py_int_digits py_int_123456)
qed

theorem get_serial_number_returns_integer_witness:
  "fst (get_serial_number ''CMD''
          (fixed_transport \<lparr>td_days = 0, td_seconds = 3, td_microseconds = 0\<rparr> ''123456'') ([], ()))
     = Inr 123456
   \<and> parse_response (GET_SERIAL_NUMBER ''CMD'') ''0042'' = Inr 42"
proof -
  have "decimal ''0042'' = 42"
    by (simp add: decimal_def digit_value_def)
  then show ?thesis
    using get_serial_number_returns_integer [of "''CMD''" "()" "''0042''"
      "fixed_transport \<lparr>td_days = 0, td_seconds = 3, td_microseconds = 0\<rparr> ''123456''" "([], ())"]
    by (simp add: fixed_transport_def is_digit_def)
qed

text \<open>
  C6. For every buffer of sufficient length that passes the checksum validation and whose
  decoded footer is not \<open>0xFFFE\<close>, \<open>parse\<close> fails with \<open>MalformedPacketException\<close>, and
  the message contains the bytes of the packet as hexadecimal text: two characters for
  each byte, the first a lower-case hexadecimal digit of value \<open>byte div 16\<close>, the second
  one of value \<open>byte mod 16\<close>.
\<close>

theorem bad_footer_reports_hex:
  assumes "self = PacketFormat nm n net ts"
    and "pf_size dtw self \<le> length packet"
    and "checksum packet (int (pf_size dtw self)) = Inr ()"
    and "map_of (read_fields dtw (pf_fields self) packet 0 []) ''footer'' \<noteq> Some (VInt 0xFFFE)"
  shows "(\<exists>v. map_of (read_fields dtw (pf_fields self) packet 0 []) ''footer'' = Some (VInt v)
           \<and> parse dtw now self packet = Inl (MalformedPacketException (bad_footer_message v packet))
           \<and> bad_footer_message v packet =
               ''bad footer '' @ py_hex v @ '' in packet: b'' @ [CHR 0x27] @ hexlify packet @ [CHR 0x27]
           \<and> sublist (hexlify packet) (bad_footer_message v packet))
       \<and> length (hexlify packet) = 2 * length packet
       \<and> (\<forall>i < length packet.
             hex_value (hexlify packet ! (2 * i)) = Some (unat (packet ! i) div 16)
             \<and> hex_value (hexlify packet ! (2 * i + 1)) = Some (unat (packet ! i) mod 16))"
proof -
  let ?sz = "pf_size dtw self"
  let ?v = "assemble_hi_to_lo (slice packet (?sz - 3) 2)"
  have sz: "1 \<le> ?sz" "?sz \<le> length packet"
    using assms pf_size_ge [of dtw nm n net ts] by simp_all
  have ft: "map_of (read_fields dtw (pf_fields self) packet 0 []) ''footer'' = Some (VInt ?v)"
    using assms(1) by (simp add: footer_lookup)
  have ne: "?v \<noteq> 0xFFFE"
    using assms(4) unfolding ft by simp
  have ck: "sum_list (map uint (take (?sz - 1) packet)) mod 256 = uint (packet ! (?sz - 1))"
    using checksum_cases(1) [OF sz] assms(3) by simp
  have "parse dtw now self packet = Inl (MalformedPacketException (bad_footer_message ?v packet))"
    using sz(2) ck ne unfolding assms(1) parse_PacketFormat Let_def by simp
  moreover have "bad_footer_message ?v packet =
      ''bad footer '' @ py_hex ?v @ '' in packet: b'' @ [CHR 0x27] @ hexlify packet @ [CHR 0x27]"
    by (simp add: bad_footer_message_def repr_bytes_hex_def)
  ultimately have "\<exists>v. map_of (read_fields dtw (pf_fields self) packet 0 []) ''footer'' = Some (VInt v)
           \<and> parse dtw now self packet = Inl (MalformedPacketException (bad_footer_message v packet))
           \<and> bad_footer_message v packet =
               ''bad footer '' @ py_hex v @ '' in packet: b'' @ [CHR 0x27] @ hexlify packet @ [CHR 0x27]
           \<and> sublist (hexlify packet) (bad_footer_message v packet)"
    using ft sublist_bad_footer_message by blast
  then show ?thesis
    using hexlify_length [of packet] hexlify_reads_back [of _ packet] by blast
qed

theorem bad_footer_reports_hex_witness:
  "parse 6 (DateTime []) BIN32_ABS (replicate 266 0 @ [0xAB, 0xCD, 0x78])
     = Inl (MalformedPacketException
         (''bad footer 0xabcd in packet: b'' @ [CHR 0x27]
            @ concat (replicate 266 ''00'') @ ''abcd78'' @ [CHR 0x27]))
   \<and> hexlify (replicate 266 0 @ [0xAB, 0xCD, 0x78]) = concat (replicate 266 ''00'') @ ''abcd78''
   \<and> hex_value (hexlify (replicate 266 0 @ [0xAB, 0xCD, 0x78]) ! 532) = Some 10
   \<and> hex_value (hexlify (replicate 266 0 @ [0xAB, 0xCD, 0x78]) ! 533) = Some 11"
proof -
  let ?p = "replicate 266 0 @ [0xAB, 0xCD, 0x78 :: byte]"
  have a: "BIN32_ABS = PacketFormat ''BIN32-ABS'' 32 False False"
    by (simp add: BIN32_ABS_def)
  have b: "pf_size 6 BIN32_ABS \<le> length ?p"
    by (simp add: pf_size_five)
  have c: "checksum ?p (int (pf_size 6 BIN32_ABS)) = Inr ()"
    unfolding pf_size_five by (subst checksum_eq) (simp_all add: sum_list_replicate nth_append)
  have v: "map_of (read_fields 6 (pf_fields BIN32_ABS) ?p 0 []) ''footer'' = Some (VInt 0xABCD)"
    unfolding a footer_lookup
    by (simp add: pf_size_five [unfolded a] slice_def assemble_hi_to_lo_def)
  then have d: "map_of (read_fields 6 (pf_fields BIN32_ABS) ?p 0 []) ''footer'' \<noteq> Some (VInt 0xFFFE)"
    by simp
  have h: "hexlify ?p = concat (replicate 266 ''00'') @ ''abcd78''"
    by (simp add: hexlify_append hexlify_replicate_zero) (simp add: hexlify_def hexdigit_def)
  have i: "(266 :: nat) < length ?p"
    by simp
  have m: "bad_footer_message 0xABCD ?p = ''bad footer 0xabcd in packet: b'' @ [CHR 0x27]
            @ concat (replicate 266 ''00'') @ ''abcd78'' @ [CHR 0x27]"
    by (simp add: bad_footer_message_def repr_bytes_hex_def py_hex_abcd h)
  from bad_footer_reports_hex [OF a b c d, of "DateTime []"]
  obtain v' where 1: "map_of (read_fields 6 (pf_fields BIN32_ABS) ?p 0 []) ''footer'' = Some (VInt v')"
    and 2: "parse 6 (DateTime []) BIN32_ABS ?p = Inl (MalformedPacketException (bad_footer_message v' ?p))"
    and 3: "\<forall>i < length ?p.
             hex_value (hexlify ?p ! (2 * i)) = Some (unat (?p ! i) div 16)
             \<and> hex_value (hexlify ?p ! (2 * i + 1)) = Some (unat (?p ! i) mod 16)"
    by blast
  have v': "v' = 0xABCD"
    using 1 v by simp
  have P: "parse 6 (DateTime []) BIN32_ABS ?p = Inl (MalformedPacketException
         (''bad footer 0xabcd in packet: b'' @ [CHR 0x27]
            @ concat (replicate 266 ''00'') @ ''abcd78'' @ [CHR 0x27]))"
    using 2 unfolding v' m .
  have "hex_value (hexlify ?p ! (2 * 266)) = Some (unat (?p ! 266) div 16)"
    and "hex_value (hexlify ?p ! (2 * 266 + 1)) = Some (unat (?p ! 266) mod 16)"
    using 3 i by blast+
  then have H: "hex_value (hexlify ?p ! 532) = Some 10" "hex_value (hexlify ?p ! 533) = Some 11"
    by (simp_all add: nth_append)
  show ?thesis
    using P h H by blast
qed

text \<open>
  C4, as amended. For every \<open>ApiCall\<close>, every transport and every block under
  \<open>call_api\<close>: when \<open>begin_api_request\<close> returns, the transport's \<open>end_api_request\<close>
  is invoked exactly once, as the last thing the transaction does, on every exit path
  (the block returns, the block raises, or the sender raises: the formatter,
  \<open>send_api_request\<close>, \<open>receive_api_response\<close> or the parser, any number of sender
  calls included); when \<open>begin_api_request\<close> itself raises, the fault is passed on and
  \<open>end_api_request\<close> is not invoked. The invocations are counted by the transport
  (\<open>counting\<close>), which changes neither the outcome nor the trace.
\<close>

theorem end_api_request_exactly_once:
  "(fst (begin_api_request protocol p) = Inr delay \<longrightarrow>
        end_calls (snd (call_api api (counting protocol) body (tr, (n, p)))) = n + 1
      \<and> count_list (fst (snd (call_api api (counting protocol) body (tr, (n, p))))) EndApiRequest
           = count_list tr EndApiRequest + 1
      \<and> last (fst (snd (call_api api (counting protocol) body (tr, (n, p))))) = EndApiRequest)
   \<and> (fst (begin_api_request protocol p) = Inl e \<longrightarrow>
        fst (call_api api (counting protocol) body (tr, (n, p))) = Inl e
      \<and> end_calls (snd (call_api api (counting protocol) body (tr, (n, p)))) = n
      \<and> fst (snd (call_api api (counting protocol) body (tr, (n, p)))) = tr @ [BeginApiRequest])
   \<and> fst (call_api api (counting protocol) body (tr, (n, p)))
        = fst (call_api api protocol body (tr, p))
   \<and> fst (snd (call_api api (counting protocol) body (tr, (n, p))))
        = fst (snd (call_api api protocol body (tr, p)))"
proof -
  obtain r tr' p' where c: "call_api api protocol body (tr, p) = (r, (tr', p'))"
    by (cases "call_api api protocol body (tr, p)") auto
  have cc: "call_api api (counting protocol) body (tr, (n, p)) =
      (r, (tr', (if isl (fst (begin_api_request protocol p)) then n else Suc n, p')))"
    by (simp add: counting_call_api c)
  have ok: "count_list tr' EndApiRequest = count_list tr EndApiRequest + 1 \<and> last tr' = EndApiRequest"
    if b: "fst (begin_api_request protocol p) = Inr delay"
  proof -
    have "fst (begin_api_request protocol (snd (tr, p))) = Inr delay"
      using b by simp
    from call_api_trace [OF this, of api body]
    obtain evs where evs: "tr' = tr @ [BeginApiRequest, Sleep (td_seconds delay)] @ evs @ [EndApiRequest]"
      "EndApiRequest \<notin> set evs"
      using c by auto
    have "count_list evs EndApiRequest = 0"
      using evs(2) by (simp add: count_list_0_iff)
    then show ?thesis
      by (simp add: evs(1))
  qed
  have bad: "r = Inl e \<and> tr' = tr @ [BeginApiRequest]"
    if b: "fst (begin_api_request protocol p) = Inl e"
  proof -
    have "fst (begin_api_request protocol (snd (tr, p))) = Inl e"
      using b by simp
    from call_api_begin_raises [OF this, of api body] show ?thesis
      using c by simp
  qed
  show ?thesis
    using ok bad by (auto simp: cc c end_calls_def)
qed

theorem end_api_request_exactly_once_witness:
  "fst (get_serial_number ''CMD''
         (counting (fixed_transport \<lparr>td_days = 0, td_seconds = 3, td_microseconds = 0\<rparr> ''abc''))
         ([], (0, ()))) = Inl ValueError
   \<and> end_calls (snd (get_serial_number ''CMD''
         (counting (fixed_transport \<lparr>td_days = 0, td_seconds = 3, td_microseconds = 0\<rparr> ''abc''))
         ([], (0, ())))) = 1
   \<and> end_calls (snd (call_api (GET_SERIAL_NUMBER ''CMD'')
         (counting (fixed_transport \<lparr>td_days = 0, td_seconds = 3, td_microseconds = 0\<rparr> ''abc''))
         (Raise (Fault ''boom'') :: (unit, int, int) block) ([], (0, ())))) = 1
   \<and> end_calls (snd (get_serial_number ''CMD'' (counting refusing_transport) ([], (0, ())))) = 0"
proof -
  let ?d = "\<lparr>td_days = 0, td_seconds = 3, td_microseconds = 0\<rparr>"
  let ?b = "Call () (\<lambda>r. case r of Inl e \<Rightarrow> Raise e | Inr n \<Rightarrow> Return n) :: (unit, int, int) block"
  have b: "fst (begin_api_request (fixed_transport ?d ''abc'') ()) = Inr ?d"
    by (simp add: fixed_transport_def)
  have f: "fst (begin_api_request refusing_transport ()) = Inl (Fault ''not ready'')"
    by (simp add: refusing_transport_def)
  have r: "fst (get_serial_number ''CMD'' (fixed_transport ?d ''abc'') ([], ())) = Inl ValueError"
    by (simp add: get_serial_number_def call_api_def send_def send_request_def
        receive_response_def sleep_def GET_SERIAL_NUMBER_def fixed_transport_def py_int_abc)
  have 1: "fst (get_serial_number ''CMD'' (counting (fixed_transport ?d ''abc'')) ([], (0, ())))
        = Inl ValueError"
    and 2: "end_calls (snd (get_serial_number ''CMD'' (counting (fixed_transport ?d ''abc''))
        ([], (0, ())))) = 1"
    using end_api_request_exactly_once [of "fixed_transport ?d ''abc''" "()" ?d
        "GET_SERIAL_NUMBER ''CMD''" ?b "[]" 0 "Fault ''not ready''"] b r
    by (simp_all add: get_serial_number_def)
  have 3: "end_calls (snd (call_api (GET_SERIAL_NUMBER ''CMD'') (counting (fixed_transport ?d ''abc''))
        (Raise (Fault ''boom'') :: (unit, int, int) block) ([], (0, ())))) = 1"
    using end_api_request_exactly_once [of "fixed_transport ?d ''abc''" "()" ?d
        "GET_SERIAL_NUMBER ''CMD''" "Raise (Fault ''boom'') :: (unit, int, int) block" "[]" 0
        "Fault ''not ready''"] b
    by simp
  have 4: "end_calls (snd (get_serial_number ''CMD'' (counting refusing_transport) ([], (0, ())))) = 0"
    using end_api_request_exactly_once [of refusing_transport "()" ?d
        "GET_SERIAL_NUMBER ''CMD''" ?b "[]" 0 "Fault ''not ready''"] f
    by (simp add: get_serial_number_def)
  show ?thesis
    using 1 2 3 4 by blast
qed

text \<open>
  C4, as stated, speaks of every execution and every exit path. With a transport whose
  \<open>begin_api_request\<close> raises, \<open>get_serial_number\<close> exits with that fault and
  \<open>end_api_request\<close> has been invoked no time: the call of \<open>begin_api_request\<close> stands
  before the \<open>try\<close>.
\<close>

theorem end_api_request_begin_raises_counterexample:
  "fst (get_serial_number ''CMD'' (counting refusing_transport) ([], (0, ()))) = Inl (Fault ''not ready'')
   \<and> end_calls (snd (get_serial_number ''CMD'' (counting refusing_transport) ([], (0, ())))) = 0
   \<and> fst (snd (get_serial_number ''CMD'' (counting refusing_transport) ([], (0, ())))) = [BeginApiRequest]"
  by (simp add: get_serial_number_def call_api_def counting_def refusing_transport_def end_calls_def)

end
